theory Spec2Isabelle
  imports Complex_Main "HOL-Library.List_Lexorder" "HOL-Library.Char_ord"
begin

section \<open>Data model\<close>

text \<open>
  A timestamp is a number of microseconds since 2025-01-01T00:00:00, the start of the
  generation window (\<open>start = datetime(2025, 1, 1)\<close> in \<open>generate_users\<close>).  Python's
  \<open>timedelta\<close> has microsecond resolution, so every timestamp the generators build is
  a whole number of microseconds.
\<close>

type_synonym timestamp = int

definition us_per_day :: int where
  "us_per_day = 86400000000"

text \<open>\<open>pd.Timedelta(days=d)\<close> for an integer number of days.\<close>

definition pd_Timedelta_days :: "int \<Rightarrow> int" where
  "pd_Timedelta_days d = d * us_per_day"

text \<open>The rows of the user table and of the payment table.\<close>

record user =
  user_id :: int
  registered_at :: timestamp
  converted :: bool
  variant :: string
  channel :: string

record payment =
  p_user_id :: int
  payment_id :: int
  amount :: real
  paid_at :: timestamp

text \<open>The exceptions the modelled code and its libraries raise.\<close>

datatype error =
  ValueError | ZeroDivisionError | OverflowError | AttributeError | KeyError | RuntimeError

section \<open>Metrics: point-in-time churn rate\<close>

text \<open>
  \<open>payments_df.groupby("user_id")["paid_at"].max()\<close>: one entry per distinct payer, in
  ascending order of the key, holding the latest payment of that payer.
\<close>

definition groupby_max_paid_at :: "payment list \<Rightarrow> (int \<times> timestamp) list" where
  "groupby_max_paid_at ps =
     map (\<lambda>u. (u, Max (set (map paid_at (filter (\<lambda>p. p_user_id p = u) ps)))))
         (sort (remdups (map p_user_id ps)))"

definition calc_churn_rate ::
  "payment list \<Rightarrow> int \<Rightarrow> int \<Rightarrow> timestamp option \<Rightarrow> real" where
  "calc_churn_rate payments_df inactive_days period_days reference_date =
     (if payments_df = [] then 0
      else
        let ref = (case reference_date of
                     None \<Rightarrow> Max (set (map paid_at payments_df))
                   | Some r \<Rightarrow> r);
            last_payment = groupby_max_paid_at payments_df;
            period_start = ref - pd_Timedelta_days period_days;
            active_cutoff = period_start - pd_Timedelta_days inactive_days;
            active_at_start = filter (\<lambda>(u, t). t \<ge> active_cutoff) last_payment
        in if length active_at_start = 0 then 0
           else
             let churn_cutoff = ref - pd_Timedelta_days inactive_days;
                 churned = filter (\<lambda>(u, t). t < churn_cutoff) active_at_start
             in real (length churned) / real (length active_at_start) * 100)"

subsection \<open>The churn rate as the specification words it\<close>

definition payers_of :: "payment list \<Rightarrow> int set" where
  "payers_of ps = p_user_id ` set ps"

definition last_payment_of :: "payment list \<Rightarrow> int \<Rightarrow> timestamp" where
  "last_payment_of ps u = Max (paid_at ` {p \<in> set ps. p_user_id p = u})"

definition active_at_start_spec :: "payment list \<Rightarrow> int \<Rightarrow> int \<Rightarrow> timestamp \<Rightarrow> int set" where
  "active_at_start_spec ps inactive_days period_days ref =
     {u \<in> payers_of ps.
        last_payment_of ps u \<ge> ref - period_days * us_per_day - inactive_days * us_per_day}"

definition churned_spec :: "payment list \<Rightarrow> int \<Rightarrow> int \<Rightarrow> timestamp \<Rightarrow> int set" where
  "churned_spec ps inactive_days period_days ref =
     {u \<in> active_at_start_spec ps inactive_days period_days ref.
        last_payment_of ps u < ref - inactive_days * us_per_day}"

definition churn_rate_spec :: "payment list \<Rightarrow> int \<Rightarrow> int \<Rightarrow> timestamp \<Rightarrow> real" where
  "churn_rate_spec ps inactive_days period_days ref =
     (if active_at_start_spec ps inactive_days period_days ref = {} then 0
      else real (card (churned_spec ps inactive_days period_days ref))
           / real (card (active_at_start_spec ps inactive_days period_days ref)) * 100)"

definition default_reference :: "payment list \<Rightarrow> timestamp option \<Rightarrow> timestamp" where
  "default_reference ps reference_date =
     (case reference_date of None \<Rightarrow> Max (paid_at ` set ps) | Some r \<Rightarrow> r)"

text \<open>
  A small payment table: user 1 pays on day 0 and on day 100, user 2 on day 20.
\<close>

definition demo_payments :: "payment list" where
  "demo_payments =
     [\<lparr>p_user_id = 1, payment_id = 1, amount = 299, paid_at = 0\<rparr>,
      \<lparr>p_user_id = 1, payment_id = 2, amount = 500, paid_at = 100 * us_per_day\<rparr>,
      \<lparr>p_user_id = 2, payment_id = 3, amount = 300, paid_at = 20 * us_per_day\<rparr>]"

lemma groupby_max_paid_at_eq:
  "groupby_max_paid_at ps =
     map (\<lambda>u. (u, last_payment_of ps u)) (sort (remdups (map p_user_id ps)))"
proof -
  have "set (map paid_at (filter (\<lambda>p. p_user_id p = u) ps))
          = paid_at ` {p \<in> set ps. p_user_id p = u}" for u
    by auto
  then show ?thesis
    by (simp add: groupby_max_paid_at_def last_payment_of_def)
qed

lemma length_filter_keyed:
  assumes "distinct us"
  shows "length (filter (\<lambda>(u, t). P u t) (map (\<lambda>u. (u, f u)) us))
           = card {u \<in> set us. P u (f u)}"
proof -
  have "length (filter (\<lambda>(u, t). P u t) (map (\<lambda>u. (u, f u)) us))
          = length (filter (\<lambda>u. P u (f u)) us)"
    by (simp add: filter_map comp_def)
  also have "\<dots> = card {u \<in> set us. P u (f u)}"
    using assms distinct_card [of "filter (\<lambda>u. P u (f u)) us"] by simp
  finally show ?thesis .
qed

lemma active_length:
  "length (filter (\<lambda>(u, t). t \<ge> c) (groupby_max_paid_at ps))
     = card {u \<in> payers_of ps. last_payment_of ps u \<ge> c}"
proof -
  have "length (filter (\<lambda>(u, t). c \<le> t)
           (map (\<lambda>u. (u, last_payment_of ps u)) (sort (remdups (map p_user_id ps)))))
        = card {u \<in> set (sort (remdups (map p_user_id ps))). c \<le> last_payment_of ps u}"
    by (rule length_filter_keyed) simp
  then show ?thesis
    by (simp add: groupby_max_paid_at_eq payers_of_def)
qed

lemma churned_length:
  "length (filter (\<lambda>(u, t). t < d) (filter (\<lambda>(u, t). t \<ge> c) (groupby_max_paid_at ps)))
     = card {u \<in> payers_of ps. last_payment_of ps u \<ge> c \<and> last_payment_of ps u < d}"
proof -
  have "filter (\<lambda>(u, t). t < d) (filter (\<lambda>(u, t). t \<ge> c) xs)
          = filter (\<lambda>(u, t). c \<le> t \<and> t < d) xs" for xs :: "(int \<times> timestamp) list"
    by (induction xs) auto
  moreover have "length (filter (\<lambda>(u, t). c \<le> t \<and> t < d)
           (map (\<lambda>u. (u, last_payment_of ps u)) (sort (remdups (map p_user_id ps)))))
        = card {u \<in> set (sort (remdups (map p_user_id ps))).
                  c \<le> last_payment_of ps u \<and> last_payment_of ps u < d}"
    by (rule length_filter_keyed) simp
  ultimately show ?thesis
    by (simp add: groupby_max_paid_at_eq payers_of_def)
qed

lemma finite_payers_of: "finite (payers_of ps)"
  by (simp add: payers_of_def)

text \<open>
  Claim C9.  On a non-empty payment table \<open>calc_churn_rate\<close> returns
  churned / active * 100, where active is the set of payers whose last payment is at or
  after reference - period_days - inactive_days and churned is the subset of active whose
  last payment is before reference - inactive_days; it returns 0 when the active set is
  empty; a missing reference timestamp defaults to the latest payment.
\<close>

theorem calc_churn_rate_spec:
  assumes "payments_df \<noteq> []"
  shows "calc_churn_rate payments_df inactive_days period_days reference_date
           = churn_rate_spec payments_df inactive_days period_days
               (default_reference payments_df reference_date)"
proof -
  define ref where "ref = default_reference payments_df reference_date"
  define c where "c = ref - pd_Timedelta_days period_days - pd_Timedelta_days inactive_days"
  define d where "d = ref - pd_Timedelta_days inactive_days"
  have ref_eq: "(case reference_date of
                   None \<Rightarrow> Max (set (map paid_at payments_df)) | Some r \<Rightarrow> r) = ref"
    by (simp add: ref_def default_reference_def split: option.splits)
  have A: "active_at_start_spec payments_df inactive_days period_days ref
             = {u \<in> payers_of payments_df. last_payment_of payments_df u \<ge> c}"
    by (simp add: active_at_start_spec_def c_def pd_Timedelta_days_def)
  have C: "churned_spec payments_df inactive_days period_days ref
             = {u \<in> payers_of payments_df.
                  last_payment_of payments_df u \<ge> c \<and> last_payment_of payments_df u < d}"
    by (auto simp: churned_spec_def A d_def pd_Timedelta_days_def)
  have fin: "finite {u \<in> payers_of payments_df. last_payment_of payments_df u \<ge> c}"
    using finite_payers_of by simp
  have empty_iff:
    "length (filter (\<lambda>(u, t). t \<ge> c) (groupby_max_paid_at payments_df)) = 0
       \<longleftrightarrow> {u \<in> payers_of payments_df. last_payment_of payments_df u \<ge> c} = {}"
    using fin by (simp only: active_length card_eq_0_iff) simp
  have "calc_churn_rate payments_df inactive_days period_days reference_date
          = (if length (filter (\<lambda>(u, t). t \<ge> c) (groupby_max_paid_at payments_df)) = 0 then 0
             else real (length (filter (\<lambda>(u, t). t < d)
                          (filter (\<lambda>(u, t). t \<ge> c) (groupby_max_paid_at payments_df))))
                  / real (length (filter (\<lambda>(u, t). t \<ge> c) (groupby_max_paid_at payments_df)))
                  * 100)"
    using assms unfolding calc_churn_rate_def ref_eq Let_def c_def d_def by simp
  also have "\<dots> = churn_rate_spec payments_df inactive_days period_days ref"
    unfolding churn_rate_spec_def A C empty_iff
    by (simp only: active_length churned_length)
  finally show ?thesis by (simp add: ref_def)
qed

text \<open>
  At the demo table with the defaults of the source (60 inactive days, period of 30 days,
  no reference date) both payers are active at the start and user 2 has churned.
\<close>

theorem calc_churn_rate_spec_witness:
  "demo_payments \<noteq> []
   \<and> calc_churn_rate demo_payments 60 30 None
       = churn_rate_spec demo_payments 60 30 (default_reference demo_payments None)
   \<and> calc_churn_rate demo_payments 60 30 None = 50"
proof -
  have ne: "demo_payments \<noteq> []"
    by (simp add: demo_payments_def)
  have val: "calc_churn_rate demo_payments 60 30 None = 50"
    by (simp add: demo_payments_def calc_churn_rate_def groupby_max_paid_at_def
          pd_Timedelta_days_def us_per_day_def)
  show ?thesis
    using ne val calc_churn_rate_spec [OF ne, of 60 30 None] by simp
qed


section \<open>Floating-point values that are not numbers\<close>

text \<open>
  Python and NumPy floats are modelled by the reals, extended by the three special values
  that decide whether the code raises: \<open>inf\<close>, \<open>-inf\<close> and \<open>nan\<close>.  Rounding error and
  overflow of finite values are outside the model.
\<close>

datatype pyfloat = Finite real | PosInf | NegInf | NaN

fun pf_add :: "pyfloat \<Rightarrow> pyfloat \<Rightarrow> pyfloat" where
  "pf_add (Finite a) (Finite b) = Finite (a + b)"
| "pf_add NaN _ = NaN"
| "pf_add _ NaN = NaN"
| "pf_add PosInf NegInf = NaN"
| "pf_add NegInf PosInf = NaN"
| "pf_add PosInf _ = PosInf"
| "pf_add _ PosInf = PosInf"
| "pf_add NegInf _ = NegInf"
| "pf_add _ NegInf = NegInf"

text \<open>The sign of a value that is not \<open>nan\<close>.\<close>

fun pf_sign :: "pyfloat \<Rightarrow> real" where
  "pf_sign (Finite a) = sgn a"
| "pf_sign PosInf = 1"
| "pf_sign NegInf = - 1"
| "pf_sign NaN = 0"

definition pf_of_sign :: "real \<Rightarrow> pyfloat" where
  "pf_of_sign s = (if s = 0 then NaN else if s > 0 then PosInf else NegInf)"

fun pf_mul :: "pyfloat \<Rightarrow> pyfloat \<Rightarrow> pyfloat" where
  "pf_mul (Finite a) (Finite b) = Finite (a * b)"
| "pf_mul NaN _ = NaN"
| "pf_mul _ NaN = NaN"
| "pf_mul x y = pf_of_sign (pf_sign x * pf_sign y)"

text \<open>
  NumPy's true division (a \<open>numpy.float64\<close> numerator): a zero divisor gives \<open>inf\<close>,
  \<open>-inf\<close> or \<open>nan\<close> with a warning, never an exception.  The divisors of the modelled
  code are squares, so a zero divisor is \<open>+0.0\<close>.
\<close>

fun pf_div :: "pyfloat \<Rightarrow> pyfloat \<Rightarrow> pyfloat" where
  "pf_div (Finite a) (Finite b) = (if b = 0 then pf_of_sign (sgn a) else Finite (a / b))"
| "pf_div NaN _ = NaN"
| "pf_div _ NaN = NaN"
| "pf_div (Finite a) _ = Finite 0"
| "pf_div x (Finite b) = pf_of_sign (pf_sign x * (if b < 0 then - 1 else 1))"
| "pf_div _ _ = NaN"

text \<open>\<open>math.ceil\<close>: raises OverflowError on an infinity and ValueError on \<open>nan\<close>.\<close>

fun py_ceil :: "pyfloat \<Rightarrow> error + int" where
  "py_ceil (Finite a) = Inr \<lceil>a\<rceil>"
| "py_ceil NaN = Inl ValueError"
| "py_ceil _ = Inl OverflowError"

text \<open>Rounding half to even, and Python's \<open>round(x, ndigits)\<close> on a finite value.\<close>

definition round_half_even :: "real \<Rightarrow> int" where
  "round_half_even x =
     (let f = \<lfloor>x\<rfloor>; d = x - of_int f
      in if d < 1 / 2 then f else if d > 1 / 2 then f + 1 else if even f then f else f + 1)"

definition py_round :: "real \<Rightarrow> nat \<Rightarrow> real" where
  "py_round x ndigits = of_int (round_half_even (x * 10 ^ ndigits)) / 10 ^ ndigits"

section \<open>The standard normal quantile\<close>

text \<open>
  \<open>scipy.stats.norm.ppf\<close> is the inverse of the standard normal distribution function.
  The distribution function is 1/2 + (integral of exp(-t*t/2) from 0 to x) / sqrt(2 pi);
  the integral is given by its power series.
\<close>

definition gauss_coeff :: "nat \<Rightarrow> real" where
  "gauss_coeff n = (if odd n then (- 1 / 2) ^ (n div 2) / (fact (n div 2) * real n) else 0)"

definition gauss_integral :: "real \<Rightarrow> real" where
  "gauss_integral x = (\<Sum>n. gauss_coeff n * x ^ n)"

definition norm_cdf :: "real \<Rightarrow> real" where
  "norm_cdf x = 1 / 2 + gauss_integral x / sqrt (2 * pi)"

definition norm_ppf :: "real \<Rightarrow> real" where
  "norm_ppf q = (THE x. norm_cdf x = q)"


text \<open>
  \<open>norm.ppf(q)\<close> as SciPy answers it: \<open>nan\<close> outside [0, 1], the infinities at 0 and 1.
\<close>

definition stats_norm_ppf :: "real \<Rightarrow> pyfloat" where
  "stats_norm_ppf q =
     (if q < 0 \<or> q > 1 then NaN
      else if q = 0 then NegInf
      else if q = 1 then PosInf
      else Finite (norm_ppf q))"

section \<open>A/B engine: minimum detectable effect and sample size\<close>

definition z_crit :: "real \<Rightarrow> bool \<Rightarrow> pyfloat" where
  "z_crit alpha two_sided =
     (if two_sided then stats_norm_ppf (1 - alpha / 2) else stats_norm_ppf (1 - alpha))"

text \<open>
  The sample-size step of \<open>calc_mde_and_sample_size\<close> (from \<open>p1 = p_control\<close> to
  \<open>n_per_group = max(30, n_per_group)\<close>).  \<open>var2 / ratio\<close> divides two Python floats and
  raises ZeroDivisionError on a zero ratio; the outer quotient has a NumPy numerator
  (the quantiles are \<open>numpy.float64\<close>), so a zero effect gives \<open>inf\<close> or \<open>nan\<close>, on which
  \<open>ceil\<close> raises.
\<close>

definition required_n_per_group ::
  "real \<Rightarrow> pyfloat \<Rightarrow> pyfloat \<Rightarrow> real \<Rightarrow> real \<Rightarrow> error + int" where
  "required_n_per_group p_control z_alpha z_beta ratio target_lift_pct =
     (let p1 = p_control;
          p2 = min (99 / 100) (p1 * (1 + target_lift_pct / 100));
          effect_size = p2 - p1;
          var1 = p1 * (1 - p1);
          var2 = p2 * (1 - p2)
      in if ratio = 0 then Inl ZeroDivisionError
         else
           case py_ceil (pf_div (pf_mul (pf_mul (pf_add z_alpha z_beta) (pf_add z_alpha z_beta))
                                        (Finite (var1 + var2 / ratio)))
                                (Finite (effect_size\<^sup>2))) of
             Inl e \<Rightarrow> Inl e
           | Inr n_per_group \<Rightarrow> Inr (max 30 n_per_group))"

text \<open>
  The nested \<open>mde_equation(effect_abs)\<close> of both solvers; \<open>n\<close> is the captured sample size
  (\<open>n_ref\<close> in the one, \<open>n_per_group\<close> in the other).
\<close>

definition mde_equation ::
  "real \<Rightarrow> pyfloat \<Rightarrow> pyfloat \<Rightarrow> real \<Rightarrow> int \<Rightarrow> real \<Rightarrow> error + pyfloat" where
  "mde_equation p_control z_alpha z_beta ratio n effect_abs =
     (if effect_abs \<le> 0 then Inr PosInf
      else
        let p2_test = min (99 / 100) (p_control + effect_abs);
            v1 = p_control * (1 - p_control);
            v2 = p2_test * (1 - p2_test)
        in if ratio = 0 then Inl ZeroDivisionError
           else
             let n_needed = pf_div (pf_mul (pf_mul (pf_add z_alpha z_beta) (pf_add z_alpha z_beta))
                                           (Finite (v1 + v2 / ratio)))
                                   (Finite (effect_abs\<^sup>2))
             in Inr (pf_add n_needed (Finite (- of_int n))))"

text \<open>
  \<open>scipy.optimize.brentq(f, a, b)\<close> is a parameter of the model: it answers a root, or
  raises (ValueError when \<open>f(a)\<close> and \<open>f(b)\<close> have the same sign, RuntimeError when the
  iteration does not converge, or what \<open>f\<close> raises).
\<close>

type_synonym root_finder = "(real \<Rightarrow> error + pyfloat) \<Rightarrow> real \<Rightarrow> real \<Rightarrow> error + real"

definition calc_mde_and_sample_size ::
  "root_finder \<Rightarrow> real \<Rightarrow> real \<Rightarrow> real \<Rightarrow> real \<Rightarrow> real \<Rightarrow> error + (real \<times> int)" where
  "calc_mde_and_sample_size brentq p_control alpha test_power ratio target_lift_pct =
     (if p_control \<le> 0 \<or> p_control \<ge> 1 then Inr (0, 0)
      else
        let z_alpha = z_crit alpha True;
            z_beta = stats_norm_ppf test_power
        in case required_n_per_group p_control z_alpha z_beta ratio target_lift_pct of
             Inl e \<Rightarrow> Inl e
           | Inr n_per_group \<Rightarrow>
               (let n_ref = 1000
                in case (case brentq (mde_equation p_control z_alpha z_beta ratio n_ref)
                                (1 / 1000) (min (1 / 2) (1 - p_control - 1 / 1000)) of
                           Inr effect_abs \<Rightarrow>
                             Inr (if p_control > 0 then effect_abs / p_control * 100 else 50)
                         | Inl ValueError \<Rightarrow> Inr 50
                         | Inl ZeroDivisionError \<Rightarrow> Inr 50
                         | Inl e \<Rightarrow> Inl e) of
                     Inl e \<Rightarrow> Inl e
                   | Inr mde_pct \<Rightarrow> Inr (py_round mde_pct 1, n_per_group)))"

definition calc_mde_simple ::
  "root_finder \<Rightarrow> int \<Rightarrow> real \<Rightarrow> real \<Rightarrow> real \<Rightarrow> real \<Rightarrow> error + real" where
  "calc_mde_simple brentq n_per_group p_control alpha test_power ratio =
     (if n_per_group \<le> 0 \<or> p_control \<le> 0 \<or> p_control \<ge> 1 then Inr 0
      else
        let z_alpha = z_crit alpha True;
            z_beta = stats_norm_ppf test_power
        in case brentq (mde_equation p_control z_alpha z_beta ratio n_per_group)
                  (1 / 1000) (min (1 / 2) (1 - p_control - 1 / 1000)) of
             Inr effect_abs \<Rightarrow>
               Inr (py_round (if p_control > 0 then effect_abs / p_control * 100 else 50) 1)
           | Inl ValueError \<Rightarrow> Inr 50
           | Inl ZeroDivisionError \<Rightarrow> Inr 50
           | Inl e \<Rightarrow> Inl e)"

subsection \<open>The sample size as the specification words it\<close>

text \<open>
  The standard two-proportion power formula,
  \<open>ceil((z_alpha + z_beta)^2 * (p1 (1 - p1) + p2 (1 - p2) / ratio) / (p2 - p1)^2)\<close>, with
  \<open>z_alpha\<close> the quantile at \<open>1 - alpha/2\<close> and \<open>z_beta\<close> the quantile at the power of the test.
\<close>

definition two_proportion_n :: "real \<Rightarrow> real \<Rightarrow> real \<Rightarrow> real \<Rightarrow> real \<Rightarrow> int" where
  "two_proportion_n p_control alpha test_power ratio target_lift_pct =
     (let p1 = p_control;
          p2 = min (99 / 100) (p1 * (1 + target_lift_pct / 100))
      in \<lceil>(norm_ppf (1 - alpha / 2) + norm_ppf test_power)\<^sup>2
           * (p1 * (1 - p1) + p2 * (1 - p2) / ratio) / (p2 - p1)\<^sup>2\<rceil>)"

text \<open>A root finder for the examples: it finds no sign change and raises ValueError.\<close>

definition brentq_no_bracket :: root_finder where
  "brentq_no_bracket f a b = Inl ValueError"

section \<open>Facts about the normal quantile\<close>

lemma diffs_gauss_coeff:
  "diffs gauss_coeff n = (if even n then (- 1 / 2) ^ (n div 2) / fact (n div 2) else 0)"
  by (auto simp: diffs_def gauss_coeff_def)

lemma gauss_density_term_even:
  fixes x :: real
  assumes n: "n = 2 * k"
  shows "(- (x\<^sup>2) / 2) ^ (n div 2) /\<^sub>R fact (n div 2) = diffs gauss_coeff n * x ^ n"
proof -
  have "(- (x\<^sup>2) / 2) ^ k = ((- 1 / 2) * x\<^sup>2) ^ k"
    by simp
  also have "\<dots> = (- 1 / 2) ^ k * (x\<^sup>2) ^ k"
    by (rule power_mult_distrib)
  also have "(x\<^sup>2) ^ k = x ^ n"
    unfolding n by (rule power_mult [symmetric])
  finally have e: "(- (x\<^sup>2) / 2) ^ k = (- 1 / 2) ^ k * x ^ n" .
  have d: "diffs gauss_coeff n = (- 1 / 2) ^ k / fact k"
    using n by (simp add: diffs_gauss_coeff)
  have "n div 2 = k" by (simp add: n)
  then show ?thesis
    unfolding d by (simp only: e) (simp add: field_simps)
qed

lemma gauss_density_sums:
  "(\<lambda>n. diffs gauss_coeff n * x ^ n) sums exp (- (x\<^sup>2) / 2)"
proof -
  have "(\<lambda>k. (- (x\<^sup>2) / 2) ^ k /\<^sub>R fact k) sums exp (- (x\<^sup>2) / 2)"
    by (rule exp_converges)
  then have "(\<lambda>n. if even n then (- (x\<^sup>2) / 2) ^ (n div 2) /\<^sub>R fact (n div 2)
                   else (\<lambda>_. 0) ((n - 1) div 2)) sums (0 + exp (- (x\<^sup>2) / 2))"
    by (intro sums_if sums_zero)
  moreover have "(if even n then (- (x\<^sup>2) / 2) ^ (n div 2) /\<^sub>R fact (n div 2)
                   else (\<lambda>_. 0) ((n - 1) div 2)) = diffs gauss_coeff n * x ^ n" for n
  proof (cases "even n")
    case True
    then obtain k where "n = 2 * k"
      by (auto elim: evenE)
    then show ?thesis
      using True gauss_density_term_even [of n k x] by simp
  next
    case False
    then show ?thesis by (simp add: diffs_gauss_coeff)
  qed
  ultimately show ?thesis by simp
qed

lemma gauss_term_odd_bound:
  fixes x :: real
  assumes n: "n = Suc (2 * k)"
  shows "norm (gauss_coeff n * x ^ n) \<le> \<bar>x\<bar> * ((x\<^sup>2 / 2) ^ k /\<^sub>R fact k)"
proof -
  have c: "gauss_coeff n = (- 1 / 2) ^ k / (fact k * real n)"
    using n unfolding gauss_coeff_def by simp
  have "\<bar>(- 1 / 2 :: real) ^ k\<bar> = (1 / 2) ^ k"
    by (simp add: power_abs)
  then have c': "\<bar>gauss_coeff n\<bar> = (1 / 2) ^ k / (fact k * real n)"
    unfolding c by (simp add: abs_mult n)
  have "x ^ n = x * (x\<^sup>2) ^ k"
    using n by (simp add: power_mult)
  then have x': "\<bar>x ^ n\<bar> = \<bar>x\<bar> * (x\<^sup>2) ^ k"
    by (simp add: abs_mult)
  have "norm (gauss_coeff n * x ^ n) = \<bar>gauss_coeff n\<bar> * \<bar>x ^ n\<bar>"
    by (simp add: abs_mult)
  also have "\<dots> = (\<bar>x\<bar> * ((x\<^sup>2 / 2) ^ k / fact k)) / real n"
    unfolding c' x' by (simp add: power_divide)
  also have "\<dots> \<le> (\<bar>x\<bar> * ((x\<^sup>2 / 2) ^ k / fact k)) / 1"
  proof (rule divide_left_mono)
    show "1 \<le> real n" by (simp add: n)
    show "0 \<le> \<bar>x\<bar> * ((x\<^sup>2 / 2) ^ k / fact k)" by simp
    show "0 < real n * 1" by (simp add: n)
  qed
  finally show ?thesis
    by (simp add: field_simps)
qed

lemma gauss_coeff_summable: "summable (\<lambda>n. gauss_coeff n * x ^ n)"
proof (rule summable_comparison_test_ev)
  let ?g = "\<lambda>k. \<bar>x\<bar> * ((x\<^sup>2 / 2) ^ k /\<^sub>R fact k)"
  let ?d = "\<lambda>n. if even n then 0 else ?g ((n - 1) div 2)"
  have "(\<lambda>k. (x\<^sup>2 / 2) ^ k /\<^sub>R fact k) sums exp (x\<^sup>2 / 2)"
    by (rule exp_converges)
  then have "?g sums (\<bar>x\<bar> * exp (x\<^sup>2 / 2))"
    by (rule sums_mult)
  then have "?d sums (\<bar>x\<bar> * exp (x\<^sup>2 / 2))"
    by (rule sums_if')
  then show "summable ?d"
    by (rule sums_summable)
  show "\<forall>\<^sub>F n in sequentially. norm (gauss_coeff n * x ^ n) \<le> ?d n"
  proof (intro always_eventually allI)
    fix n :: nat
    show "norm (gauss_coeff n * x ^ n) \<le> ?d n"
    proof (cases "even n")
      case True
      then show ?thesis by (simp add: gauss_coeff_def)
    next
      case False
      then obtain k where n: "n = Suc (2 * k)"
        by (auto elim: oddE)
      have "(n - 1) div 2 = k"
        by (simp add: n)
      then show ?thesis
        using False gauss_term_odd_bound [OF n, of x] by simp
    qed
  qed
qed

lemma DERIV_gauss_integral:
  "DERIV gauss_integral x :> exp (- (x\<^sup>2) / 2)"
proof -
  have "DERIV (\<lambda>x. \<Sum>n. gauss_coeff n * x ^ n) x :> (\<Sum>n. diffs gauss_coeff n * x ^ n)"
    by (rule termdiffs_strong [where K = "\<bar>x\<bar> + 1"]) (simp_all add: gauss_coeff_summable)
  moreover have "(\<Sum>n. diffs gauss_coeff n * x ^ n) = exp (- (x\<^sup>2) / 2)"
    using gauss_density_sums by (rule sums_unique [symmetric])
  moreover have "gauss_integral = (\<lambda>x. \<Sum>n. gauss_coeff n * x ^ n)"
    by (rule ext) (simp add: gauss_integral_def)
  ultimately show ?thesis by simp
qed

lemma gauss_integral_strict_mono:
  assumes "a < b" shows "gauss_integral a < gauss_integral b"
proof (rule DERIV_pos_imp_increasing [OF assms])
  fix x
  show "\<exists>y. DERIV gauss_integral x :> y \<and> 0 < y"
    using DERIV_gauss_integral [of x] by (intro exI [of _ "exp (- (x\<^sup>2) / 2)"]) simp
qed

lemma gauss_integral_0: "gauss_integral 0 = 0"
proof -
  have "(\<Sum>n. gauss_coeff n * 0 ^ n) = gauss_coeff 0"
    by (rule powser_zero)
  then show ?thesis
    by (simp add: gauss_integral_def gauss_coeff_def)
qed

lemma norm_cdf_strict_mono: "a < b \<Longrightarrow> norm_cdf a < norm_cdf b"
  using gauss_integral_strict_mono [of a b]
  by (simp add: norm_cdf_def divide_strict_right_mono)

lemma norm_cdf_inj: "norm_cdf a = norm_cdf b \<Longrightarrow> a = b"
  using norm_cdf_strict_mono [of a b] norm_cdf_strict_mono [of b a]
  by (cases a b rule: linorder_cases) auto

lemma norm_cdf_0: "norm_cdf 0 = 1 / 2"
  by (simp add: norm_cdf_def gauss_integral_0)

lemma norm_ppf_norm_cdf: "norm_ppf (norm_cdf x) = x"
  unfolding norm_ppf_def by (rule the_equality) (auto dest: norm_cdf_inj)

lemma norm_ppf_half: "norm_ppf (1 / 2) = 0"
  using norm_ppf_norm_cdf [of 0] by (simp add: norm_cdf_0)


section \<open>Facts about the MDE and sample-size solvers\<close>

lemma round_half_even_of_int: "round_half_even (of_int k) = k"
  by (simp add: round_half_even_def)

lemma py_round_50: "py_round 50 1 = 50"
proof -
  have "round_half_even (50 * 10 ^ 1) = 500"
    using round_half_even_of_int [of 500] by simp
  then show ?thesis
    by (simp add: py_round_def)
qed

lemma py_round_50_Suc: "py_round 50 (Suc 0) = 50"
  using py_round_50 by simp

lemma required_n_per_group_finite:
  assumes "ratio \<noteq> 0"
    and "min (99 / 100) (p * (1 + lift / 100)) \<noteq> p"
  shows "required_n_per_group p (Finite za) (Finite zb) ratio lift =
           Inr (max 30 \<lceil>(za + zb)\<^sup>2
                  * (p * (1 - p) + min (99 / 100) (p * (1 + lift / 100))
                       * (1 - min (99 / 100) (p * (1 + lift / 100))) / ratio)
                  / (min (99 / 100) (p * (1 + lift / 100)) - p)\<^sup>2\<rceil>)"
  using assms by (simp add: required_n_per_group_def Let_def power2_eq_square)

lemma required_n_per_group_zero_effect:
  assumes "min (99 / 100) (p * (1 + lift / 100)) = p"
  shows "isl (required_n_per_group p za zb ratio lift)"
proof (cases "ratio = 0")
  case True
  then show ?thesis by (simp add: required_n_per_group_def Let_def)
next
  case False
  define num where
    "num = pf_mul (pf_mul (pf_add za zb) (pf_add za zb)) (Finite (p * (1 - p) + p * (1 - p) / ratio))"
  have "isl (py_ceil (pf_div num (Finite 0)))"
    by (cases num) (simp_all add: pf_of_sign_def)
  then show ?thesis
    using False assms
    by (auto simp: required_n_per_group_def Let_def num_def split: sum.splits)
qed

lemma stats_norm_ppf_finite: "0 < q \<Longrightarrow> q < 1 \<Longrightarrow> stats_norm_ppf q = Finite (norm_ppf q)"
  by (simp add: stats_norm_ppf_def)

lemma z_crit_finite: "0 < alpha \<Longrightarrow> alpha < 2 \<Longrightarrow> z_crit alpha True = Finite (norm_ppf (1 - alpha / 2))"
  by (simp add: z_crit_def stats_norm_ppf_finite)

lemma calc_mde_and_sample_size_cases:
  assumes "0 < p_control" "p_control < 1"
    and "required_n_per_group p_control (z_crit alpha True) (stats_norm_ppf test_power)
           ratio target_lift_pct = Inr k"
  shows "case calc_mde_and_sample_size brentq p_control alpha test_power ratio target_lift_pct of
           Inr (mde, n) \<Rightarrow> n = k
         | Inl e \<Rightarrow>
             brentq (mde_equation p_control (z_crit alpha True) (stats_norm_ppf test_power)
                       ratio 1000)
               (1 / 1000) (min (1 / 2) (1 - p_control - 1 / 1000)) = Inl e"
  using assms
  by (simp add: calc_mde_and_sample_size_def Let_def split: sum.splits error.splits)

lemma two_proportion_n_zero_quantiles:
  "two_proportion_n p 1 (1 / 2) ratio lift = 0"
  by (simp add: two_proportion_n_def Let_def norm_ppf_half)

lemma mde_round_trip_when_returned:
  assumes "calc_mde_and_sample_size brentq p_control alpha test_power ratio target_lift_pct
             = Inr (mde, n)"
  shows "calc_mde_simple brentq 1000 p_control alpha test_power ratio = Inr mde"
proof (cases "p_control \<le> 0 \<or> p_control \<ge> 1")
  case True
  then show ?thesis
    using assms by (auto simp: calc_mde_and_sample_size_def calc_mde_simple_def)
next
  case False
  then show ?thesis
    using assms
    by (auto simp: calc_mde_and_sample_size_def calc_mde_simple_def Let_def py_round_50 py_round_50_Suc
          split: sum.splits error.splits if_splits)
qed

text \<open>
  Claim C3, amended.  For a baseline strictly between 0 and 1, a significance level in
  (0, 2) and a power in (0, 1) (where the quantiles are finite), a non-zero ratio and a
  non-zero effect p2 - p1, the per-group sample size that \<open>calc_mde_and_sample_size\<close>
  returns is the maximum of 30 and the value of the two-proportion power formula; the call
  fails only with an error of the root finder that the code does not catch.
\<close>

theorem sample_size_is_power_formula_floored_at_30:
  assumes "0 < p_control" "p_control < 1"
    and "0 < alpha" "alpha < 2"
    and "0 < test_power" "test_power < 1"
    and "ratio \<noteq> 0"
    and "min (99 / 100) (p_control * (1 + target_lift_pct / 100)) \<noteq> p_control"
  shows "case calc_mde_and_sample_size brentq p_control alpha test_power ratio target_lift_pct of
           Inr (mde, n) \<Rightarrow>
             n = max 30 (two_proportion_n p_control alpha test_power ratio target_lift_pct)
         | Inl e \<Rightarrow>
             brentq (mde_equation p_control (z_crit alpha True) (stats_norm_ppf test_power)
                       ratio 1000)
               (1 / 1000) (min (1 / 2) (1 - p_control - 1 / 1000)) = Inl e"
proof -
  have "required_n_per_group p_control (z_crit alpha True) (stats_norm_ppf test_power)
          ratio target_lift_pct
        = Inr (max 30 (two_proportion_n p_control alpha test_power ratio target_lift_pct))"
    using assms
    by (simp add: z_crit_finite stats_norm_ppf_finite required_n_per_group_finite
          two_proportion_n_def Let_def)
  then show ?thesis
    using assms(1,2) by (rule calc_mde_and_sample_size_cases [rotated 2])
qed

text \<open>
  The theorem at baseline 10 %, significance level 1, power 1/2, equal groups and a target
  lift of 20 %: both quantiles are 0, the formula gives 0 and the code returns 30.
\<close>

theorem sample_size_is_power_formula_floored_at_30_witness:
  "(0::real) < 1 / 10 \<and> (1 / 10 :: real) < 1 \<and> (0::real) < 1 \<and> (1::real) < 2
   \<and> (0::real) < 1 / 2 \<and> (1 / 2 :: real) < 1 \<and> (1::real) \<noteq> 0
   \<and> min (99 / 100) ((1 / 10 :: real) * (1 + 20 / 100)) \<noteq> 1 / 10
   \<and> calc_mde_and_sample_size brentq_no_bracket (1 / 10) 1 (1 / 2) 1 20 = Inr (50, 30)
   \<and> max 30 (two_proportion_n (1 / 10) 1 (1 / 2) 1 20) = 30"
proof -
  have h: "min (99 / 100) ((1 / 10 :: real) * (1 + 20 / 100)) \<noteq> 1 / 10"
    by simp
  have n: "max 30 (two_proportion_n (1 / 10) 1 (1 / 2) 1 20) = 30"
    by (simp add: two_proportion_n_zero_quantiles)
  have "case calc_mde_and_sample_size brentq_no_bracket (1 / 10) 1 (1 / 2) 1 20 of
          Inr (mde, k) \<Rightarrow> k = max 30 (two_proportion_n (1 / 10) 1 (1 / 2) 1 20)
        | Inl e \<Rightarrow>
            brentq_no_bracket (mde_equation (1 / 10) (z_crit 1 True) (stats_norm_ppf (1 / 2)) 1 1000)
              (1 / 1000) (min (1 / 2) (1 - 1 / 10 - 1 / 1000)) = Inl e"
    using sample_size_is_power_formula_floored_at_30
            [of "1 / 10" 1 "1 / 2" 1 20 brentq_no_bracket] h
    by simp
  moreover have "calc_mde_and_sample_size brentq_no_bracket (1 / 10) 1 (1 / 2) 1 20
                   = Inr (50, 30)"
  proof -
    have z: "z_crit 1 True = Finite 0" "stats_norm_ppf (1 / 2) = Finite 0"
      by (simp_all add: z_crit_def stats_norm_ppf_def norm_ppf_half)
    have "required_n_per_group (1 / 10) (Finite 0) (Finite 0) 1 20 = Inr 30"
      by (simp add: required_n_per_group_def Let_def)
    then show ?thesis
      by (simp add: calc_mde_and_sample_size_def Let_def z brentq_no_bracket_def
            py_round_50 py_round_50_Suc)
  qed
  ultimately have "calc_mde_and_sample_size brentq_no_bracket (1 / 10) 1 (1 / 2) 1 20
                     = Inr (50, 30)"
    by simp
  then show ?thesis
    using h n by simp
qed

text \<open>
  Claim C3 as stated fails.  At baseline 1/2, significance level 1, power 1/2, equal
  groups and a target lift of 98 % both quantiles are 0, so the power formula gives
  ceil(0) = 0, while the code returns 30 (the root finder sees -1000 at both ends of its
  bracket and raises ValueError, hence the sentinel MDE 50).
\<close>

theorem sample_size_not_bare_formula_counterexample:
  "calc_mde_and_sample_size brentq_no_bracket (1 / 2) 1 (1 / 2) 1 98 = Inr (50, 30)
   \<and> two_proportion_n (1 / 2) 1 (1 / 2) 1 98 = 0"
proof -
  have z: "z_crit 1 True = Finite 0" "stats_norm_ppf (1 / 2) = Finite 0"
    by (simp_all add: z_crit_def stats_norm_ppf_def norm_ppf_half)
  have "required_n_per_group (1 / 2) (Finite 0) (Finite 0) 1 98 = Inr 30"
    by (simp add: required_n_per_group_def Let_def)
  then have "calc_mde_and_sample_size brentq_no_bracket (1 / 2) 1 (1 / 2) 1 98 = Inr (50, 30)"
    by (simp add: calc_mde_and_sample_size_def Let_def z brentq_no_bracket_def py_round_50 py_round_50_Suc)
  then show ?thesis
    by (simp add: two_proportion_n_zero_quantiles)
qed

text \<open>
  Claim C5 (failing input).  At baseline 0.99 with the defaults (significance level 0.05,
  power 0.8, equal groups, target lift 20 %) the capped p2 equals p1, the sample-size
  quotient has a zero divisor and \<open>calc_mde_and_sample_size\<close> raises before it solves
  for the MDE, whatever the root finder answers.
\<close>

theorem calc_mde_and_sample_size_raises_at_099:
  "isl (calc_mde_and_sample_size brentq (99 / 100) (5 / 100) (8 / 10) 1 20)"
proof -
  have "min (99 / 100) ((99 / 100 :: real) * (1 + 20 / 100)) = 99 / 100"
    by simp
  then have "isl (required_n_per_group (99 / 100) (z_crit (5 / 100) True)
                    (stats_norm_ppf (8 / 10)) 1 20)"
    by (rule required_n_per_group_zero_effect)
  then show ?thesis
    by (auto simp: calc_mde_and_sample_size_def Let_def split: sum.splits)
qed

text \<open>
  There the other entry point answers the sentinel when the root finder finds no sign
  change (as it does: the equation is positive at both ends of the bracket [0.001, 0.009]).
\<close>

lemma calc_mde_simple_sentinel_at_099:
  "calc_mde_simple brentq_no_bracket 1000 (99 / 100) (5 / 100) (8 / 10) 1 = Inr 50"
  by (simp add: calc_mde_simple_def Let_def brentq_no_bracket_def)


section \<open>A/B engine: comparison of the two groups\<close>

text \<open>
  A user table as \<open>ab_metrics\<close> receives it: the column names and the rows.  A row of a
  table that lacks a column still has the field in the model; the code never reads it.
\<close>

record users_df =
  df_columns :: "string list"
  df_rows :: "user list"

text \<open>
  \<open>scipy.stats.chi2_contingency\<close> on the 2x2 table [[a, b], [c, d]], reduced to the
  p-value the caller keeps.  It raises ValueError on a negative entry and on an expected
  frequency of zero; an all-zero table gives \<open>nan\<close>.  With one degree of freedom Yates'
  correction applies, and the chi-squared survival function is 2 (1 - Phi(sqrt x)).
\<close>

definition yates :: "real \<Rightarrow> real \<Rightarrow> real" where
  "yates obs ex = obs + min (1 / 2) \<bar>ex - obs\<bar> * sgn (ex - obs)"

definition chi2_contingency :: "int \<Rightarrow> int \<Rightarrow> int \<Rightarrow> int \<Rightarrow> error + pyfloat" where
  "chi2_contingency a b c d =
     (if a < 0 \<or> b < 0 \<or> c < 0 \<or> d < 0 then Inl ValueError
      else
        let total = real_of_int (a + b + c + d)
        in if total = 0 then Inr NaN
           else
             let e11 = real_of_int ((a + b) * (a + c)) / total;
                 e12 = real_of_int ((a + b) * (b + d)) / total;
                 e21 = real_of_int ((c + d) * (a + c)) / total;
                 e22 = real_of_int ((c + d) * (b + d)) / total
             in if e11 = 0 \<or> e12 = 0 \<or> e21 = 0 \<or> e22 = 0 then Inl ValueError
                else
                  let chi2 = (yates (real_of_int a) e11 - e11)\<^sup>2 / e11
                           + (yates (real_of_int b) e12 - e12)\<^sup>2 / e12
                           + (yates (real_of_int c) e21 - e21)\<^sup>2 / e21
                           + (yates (real_of_int d) e22 - e22)\<^sup>2 / e22
                  in Inr (Finite (2 * (1 - norm_cdf (sqrt chi2)))))"

text \<open>A row of the summary table (the control row comes first, then the test row).\<close>

record summary_row =
  s_users :: nat
  s_conversion_pct :: real
  s_revenue :: real
  s_arpu :: real
  s_arpu_p_value :: real

text \<open>\<open>series.sum()\<close> and \<open>series.mean()\<close> of a boolean column.\<close>

definition count_converted :: "user list \<Rightarrow> int" where
  "count_converted us = int (length (filter converted us))"

definition mean_converted :: "user list \<Rightarrow> real" where
  "mean_converted us = real_of_int (count_converted us) / real (length us)"

text \<open>The revenue of the payments whose user is in a group.\<close>

definition group_revenue :: "payment list \<Rightarrow> user list \<Rightarrow> real" where
  "group_revenue payments_df grp =
     sum_list (map amount (filter (\<lambda>p. p_user_id p \<in> set (map user_id grp)) payments_df))"

text \<open>
  The revenue per user of a group, zero for a user without payment
  (\<open>grp["user_id"].map(rev_per_user).fillna(0)\<close>).
\<close>

definition revenue_per_user :: "payment list \<Rightarrow> user list \<Rightarrow> real list" where
  "revenue_per_user payments_df grp =
     map (\<lambda>u. sum_list (map amount (filter (\<lambda>p. p_user_id p = user_id u) payments_df))) grp"

text \<open>
  \<open>ab_metrics\<close>.  The Welch test \<open>scipy.stats.ttest_ind(..., equal_var=False)\<close> is a
  parameter; it answers the p-value, possibly \<open>nan\<close>.
\<close>

definition ab_metrics ::
  "(real list \<Rightarrow> real list \<Rightarrow> pyfloat) \<Rightarrow> users_df \<Rightarrow> payment list
     \<Rightarrow> error + (summary_row list \<times> pyfloat \<times> real \<times> bool)" where
  "ab_metrics ttest_ind users payments_df =
     (if ''variant'' \<notin> set (df_columns users)
         \<or> length (remdups (map variant (df_rows users))) < 2
      then Inr ([], Finite 0, 0, False)
      else
        let control = filter (\<lambda>u. variant u = ''control'') (df_rows users);
            test = filter (\<lambda>u. variant u = ''test'') (df_rows users);
            conv_control = count_converted control;
            conv_test = count_converted test;
            n_control = length control;
            n_test = length test
        in case chi2_contingency conv_control (int n_control - conv_control)
                                 conv_test (int n_test - conv_test) of
             Inl e \<Rightarrow> Inl e
           | Inr p_value \<Rightarrow>
               (let cr_control = (if n_control \<noteq> 0 then mean_converted control * 100 else 0);
                    cr_test = (if n_test \<noteq> 0 then mean_converted test * 100 else 0);
                    uplift = (if cr_control \<noteq> 0
                              then (cr_test - cr_control) / cr_control * 100 else 0);
                    rev_control = (if payments_df \<noteq> [] then group_revenue payments_df control
                                   else 0);
                    rev_test = (if payments_df \<noteq> [] then group_revenue payments_df test
                                else 0);
                    arpu_control = (if n_control \<noteq> 0 then rev_control / real n_control else 0);
                    arpu_test = (if n_test \<noteq> 0 then rev_test / real n_test else 0);
                    p_value_arpu =
                      (if payments_df \<noteq> [] \<and> n_control \<noteq> 0 \<and> n_test \<noteq> 0
                          \<and> n_control \<ge> 2 \<and> n_test \<ge> 2
                       then (case ttest_ind (revenue_per_user payments_df control)
                                            (revenue_per_user payments_df test) of
                               Finite p \<Rightarrow> p
                             | PosInf \<Rightarrow> 1
                             | NegInf \<Rightarrow> 1
                             | NaN \<Rightarrow> 1)
                       else 1);
                    summary_df =
                      [\<lparr>s_users = n_control, s_conversion_pct = py_round cr_control 2,
                        s_revenue = py_round rev_control 2, s_arpu = py_round arpu_control 2,
                        s_arpu_p_value = py_round p_value_arpu 4\<rparr>,
                       \<lparr>s_users = n_test, s_conversion_pct = py_round cr_test 2,
                        s_revenue = py_round rev_test 2, s_arpu = py_round arpu_test 2,
                        s_arpu_p_value = py_round p_value_arpu 4\<rparr>];
                    significant = (case p_value of Finite p \<Rightarrow> p < 5 / 100
                                   | NegInf \<Rightarrow> True | PosInf \<Rightarrow> False | NaN \<Rightarrow> False)
                in Inr (summary_df, p_value, uplift, significant)))"

text \<open>
  Two users, one in each group, neither converted; all five columns are present.
\<close>

definition no_conversion_users :: users_df where
  "no_conversion_users =
     \<lparr>df_columns = [''user_id'', ''registered_at'', ''converted'', ''variant'', ''channel''],
      df_rows = [\<lparr>user_id = 1, registered_at = 0, converted = False,
               variant = ''control'', channel = ''organic''\<rparr>,
              \<lparr>user_id = 2, registered_at = us_per_day, converted = False,
               variant = ''test'', channel = ''ads''\<rparr>]\<rparr>"

section \<open>Facts about the comparison of the two groups\<close>

lemma ab_metrics_neutral:
  assumes "''variant'' \<notin> set (df_columns users)
           \<or> length (remdups (map variant (df_rows users))) < 2"
  shows "ab_metrics ttest_ind users payments_df = Inr ([], Finite 0, 0, False)"
  using assms by (simp add: ab_metrics_def)

text \<open>
  With only the labels control and test in the column, fewer than two distinct labels
  means that one of the two groups is empty.
\<close>

lemma two_labels_nunique:
  assumes "set (map variant us) \<subseteq> {''control'', ''test''}"
    and "filter (\<lambda>u. variant u = ''control'') us = []
         \<or> filter (\<lambda>u. variant u = ''test'') us = []"
  shows "length (remdups (map variant us)) < 2"
proof -
  have "set (map variant us) \<subseteq> {''control''} \<or> set (map variant us) \<subseteq> {''test''}"
    using assms by (auto simp: filter_empty_conv)
  then obtain x where "set (map variant us) \<subseteq> {x}"
    by blast
  then have "card (set (map variant us)) \<le> card {x}"
    by (intro card_mono) simp_all
  then have "card (set (map variant us)) \<le> 1"
    by simp
  then show ?thesis
    by (simp add: length_remdups_card_conv del: set_map)
qed

text \<open>
  Claim C2 (failing input).  Both groups are present and nobody converted: the
  contingency table is [[0, 1], [0, 1]], its expected frequencies have a zero column, the
  chi-squared test raises ValueError and \<open>ab_metrics\<close> lets it through.
\<close>

theorem ab_metrics_raises_without_conversions:
  "ab_metrics ttest_ind no_conversion_users [] = Inl ValueError"
  by (simp add: ab_metrics_def no_conversion_users_def count_converted_def
        chi2_contingency_def Let_def)


text \<open>The same with a Welch test that answers \<open>nan\<close> (it is never reached).\<close>

theorem ab_metrics_raises_without_conversions_witness:
  "ab_metrics (\<lambda>xs ys. NaN) no_conversion_users [] = Inl ValueError"
  by (rule ab_metrics_raises_without_conversions)


section \<open>Calendar\<close>

text \<open>
  The civil date (year, month, day) of a day number counted from 2025-01-01, in the
  proleptic Gregorian calendar that \<open>datetime\<close> and pandas use.  Day 0 of the era-based
  count is 0000-03-01; 2025-01-01 is day 739557 of that count.
\<close>

definition civil_from_days :: "int \<Rightarrow> int \<times> int \<times> int" where
  "civil_from_days days =
     (let z = days + 739557;
          era = z div 146097;
          doe = z - era * 146097;
          yoe = (doe - doe div 1460 + doe div 36524 - doe div 146096) div 365;
          y = yoe + era * 400;
          doy = doe - (365 * yoe + yoe div 4 - yoe div 100);
          mp = (5 * doy + 2) div 153;
          d = doy - (153 * mp + 2) div 5 + 1;
          m = (if mp < 10 then mp + 3 else mp - 9)
      in (if m \<le> 2 then y + 1 else y, m, d))"

text \<open>\<open>ts.month\<close> and the month period \<open>ts.to_period("M")\<close> as (year, month).\<close>

definition month_of :: "timestamp \<Rightarrow> int" where
  "month_of ts = fst (snd (civil_from_days (ts div us_per_day)))"

definition to_period_M :: "timestamp \<Rightarrow> int \<times> int" where
  "to_period_M ts = (let (y, m, d) = civil_from_days (ts div us_per_day) in (y, m))"

text \<open>
  \<open>timedelta(days=x)\<close> for a float \<open>x\<close>, in microseconds: the constructor rounds to the
  nearest microsecond, half to even.
\<close>

definition timedelta_days :: "real \<Rightarrow> int" where
  "timedelta_days x = round_half_even (x * real_of_int us_per_day)"

text \<open>\<open>int(x)\<close> of a float truncates towards zero.\<close>

definition py_int :: "real \<Rightarrow> int" where
  "py_int x = (if x \<ge> 0 then \<lfloor>x\<rfloor> else \<lceil>x\<rceil>)"

section \<open>The random source\<close>

text \<open>
  NumPy's generator is a parameter of the model: a state type with the state that a seed
  gives, one draw of \<open>Generator.random()\<close> (a float in [0, 1)) and one draw of
  \<open>Generator.integers(low, high)\<close> (an integer in [low, high)).  Every draw returns the
  next state, which the caller threads on.
\<close>

record 's bit_generator =
  seeded :: "int \<Rightarrow> 's"
  next_double :: "'s \<Rightarrow> real \<times> 's"
  next_integer :: "int \<Rightarrow> int \<Rightarrow> 's \<Rightarrow> int \<times> 's"

text \<open>The range contract of the two draws.\<close>

definition rng_ok :: "'s bit_generator \<Rightarrow> bool" where
  "rng_ok G \<longleftrightarrow>
     (\<forall>s. 0 \<le> fst (next_double G s) \<and> fst (next_double G s) < 1)
     \<and> (\<forall>lo hi s. lo < hi \<longrightarrow>
           lo \<le> fst (next_integer G lo hi s) \<and> fst (next_integer G lo hi s) < hi)"

text \<open>
  \<open>np.random.default_rng(seed)\<close>: with a seed the state is the seed's; with \<open>None\<close> it
  comes from the operating system's entropy, here the argument \<open>entropy\<close>.
\<close>

definition default_rng :: "'s bit_generator \<Rightarrow> int option \<Rightarrow> 's \<Rightarrow> 's" where
  "default_rng G seed entropy = (case seed of Some k \<Rightarrow> seeded G k | None \<Rightarrow> entropy)"

text \<open>\<open>rng.random(n)\<close>: \<open>n\<close> successive draws.\<close>

fun rng_random_n :: "'s bit_generator \<Rightarrow> nat \<Rightarrow> 's \<Rightarrow> real list \<times> 's" where
  "rng_random_n G 0 s = ([], s)"
| "rng_random_n G (Suc n) s =
     (let (x, s1) = next_double G s;
          (xs, s2) = rng_random_n G n s1
      in (x # xs, s2))"

text \<open>
  \<open>rng.uniform(low, high)\<close> is \<open>low + (high - low) * random()\<close>; it raises ValueError
  when \<open>high < low\<close>.  \<open>rng.uniform(low, high, n)\<close> draws \<open>n\<close> values.
\<close>

definition rng_uniform :: "'s bit_generator \<Rightarrow> real \<Rightarrow> real \<Rightarrow> 's \<Rightarrow> error + (real \<times> 's)" where
  "rng_uniform G low high s =
     (if high < low then Inl ValueError
      else let (u, s1) = next_double G s in Inr (low + (high - low) * u, s1))"

definition rng_uniform_n ::
  "'s bit_generator \<Rightarrow> real \<Rightarrow> real \<Rightarrow> nat \<Rightarrow> 's \<Rightarrow> error + (real list \<times> 's)" where
  "rng_uniform_n G low high n s =
     (if high < low then Inl ValueError
      else let (us, s1) = rng_random_n G n s
           in Inr (map (\<lambda>u. low + (high - low) * u) us, s1))"

text \<open>
  \<open>rng.choice(a, size=n, p=p)\<close>.  The probabilities are checked first, whatever \<open>n\<close> is:
  ValueError when they differ in number from \<open>a\<close>, contain \<open>nan\<close> or an infinity, have a
  negative entry or do not sum to 1.  Then each sample maps a draw \<open>u\<close> of \<open>random()\<close>
  to the first entry whose cumulative probability exceeds \<open>u\<close>.
\<close>

fun finite_values :: "pyfloat list \<Rightarrow> real list option" where
  "finite_values [] = Some []"
| "finite_values (Finite x # xs) = map_option ((#) x) (finite_values xs)"
| "finite_values (_ # xs) = None"

fun pick_by_cdf :: "'a list \<Rightarrow> real list \<Rightarrow> real \<Rightarrow> real \<Rightarrow> 'a option" where
  "pick_by_cdf (a # as) (p # ps) acc u =
     (if u < acc + p then Some a else pick_by_cdf as ps (acc + p) u)"
| "pick_by_cdf _ _ acc u = None"

fun those_or_error :: "'a option list \<Rightarrow> error + 'a list" where
  "those_or_error [] = Inr []"
| "those_or_error (None # xs) = Inl ValueError"
| "those_or_error (Some x # xs) =
     (case those_or_error xs of Inl e \<Rightarrow> Inl e | Inr ys \<Rightarrow> Inr (x # ys))"

definition rng_choice ::
  "'s bit_generator \<Rightarrow> 'a list \<Rightarrow> pyfloat list \<Rightarrow> nat \<Rightarrow> 's \<Rightarrow> error + ('a list \<times> 's)" where
  "rng_choice G a p n s =
     (if a = [] \<and> n \<noteq> 0 then Inl ValueError
      else if length p \<noteq> length a then Inl ValueError
      else
        case finite_values p of
          None \<Rightarrow> Inl ValueError
        | Some ps \<Rightarrow>
            if (\<exists>x \<in> set ps. x < 0) then Inl ValueError
            else if sum_list ps \<noteq> 1 then Inl ValueError
            else
              let (us, s1) = rng_random_n G n s
              in case those_or_error (map (pick_by_cdf a ps 0) us) of
                   Inl e \<Rightarrow> Inl e
                 | Inr picked \<Rightarrow> Inr (picked, s1))"

section \<open>User generator\<close>

definition CHANNEL_CONVERSION_MULT :: "(string \<times> real) list" where
  "CHANNEL_CONVERSION_MULT = [(''ads'', 9 / 10), (''organic'', 1), (''referral'', 5 / 4)]"

definition seasonality_mult :: "int \<Rightarrow> bool \<Rightarrow> real" where
  "seasonality_mult month enabled =
     (if \<not> enabled then 1
      else if month \<in> {12, 1} then 12 / 10
      else if month \<in> {7, 8} then 85 / 100
      else 1)"

text \<open>
  The probability that \<open>_effective_conversion\<close> computes before it draws
  (\<open>mult\<close>, \<open>p\<close> and the clamp).
\<close>

definition conversion_probability :: "real \<Rightarrow> string \<Rightarrow> int \<Rightarrow> bool \<Rightarrow> real" where
  "conversion_probability base_rate_pct chan reg_month seasonality_enabled =
     (let mult = (case map_of CHANNEL_CONVERSION_MULT chan of Some m \<Rightarrow> m | None \<Rightarrow> 1)
                 * seasonality_mult reg_month seasonality_enabled;
          p = (base_rate_pct / 100) * mult
      in min 1 (max 0 p))"

definition effective_conversion ::
  "'s bit_generator \<Rightarrow> real \<Rightarrow> string \<Rightarrow> int \<Rightarrow> bool \<Rightarrow> 's \<Rightarrow> bool \<times> 's" where
  "effective_conversion G base_rate_pct chan reg_month seasonality_enabled rng =
     (let (u, rng1) = next_double G rng
      in (u < conversion_probability base_rate_pct chan reg_month seasonality_enabled, rng1))"

text \<open>
  The comprehension \<open>[_effective_conversion(rate, channel[i], reg_months[i], ...) for i in
  range(n_users)]\<close>, over the paired channels and months.
\<close>

fun conversions ::
  "'s bit_generator \<Rightarrow> real \<Rightarrow> bool \<Rightarrow> (string \<times> int) list \<Rightarrow> 's \<Rightarrow> bool list \<times> 's" where
  "conversions G rate enabled [] rng = ([], rng)"
| "conversions G rate enabled ((chan, m) # rest) rng =
     (let (c, rng1) = effective_conversion G rate chan m enabled rng;
          (cs, rng2) = conversions G rate enabled rest rng1
      in (c # cs, rng2))"

text \<open>
  \<open>pd.Series(registered_at).dt.month.values\<close>.  A Series built from an empty list has no
  datetime dtype, and its \<open>.dt\<close> accessor raises AttributeError.
\<close>

definition series_dt_month :: "timestamp list \<Rightarrow> error + int list" where
  "series_dt_month ts = (if ts = [] then Inl AttributeError else Inr (map month_of ts))"

text \<open>The rows of \<open>pd.DataFrame({...})\<close> built from five columns of equal length.\<close>

fun users_frame ::
  "int list \<Rightarrow> timestamp list \<Rightarrow> bool list \<Rightarrow> string list \<Rightarrow> string list \<Rightarrow> user list" where
  "users_frame (i # is) (r # rs) (c # cs) (v # vs) (ch # chs) =
     \<lparr>user_id = i, registered_at = r, converted = c, variant = v, channel = ch\<rparr>
       # users_frame is rs cs vs chs"
| "users_frame _ _ _ _ _ = []"

definition generate_users ::
  "'s bit_generator \<Rightarrow> 's \<Rightarrow> nat \<Rightarrow> real \<Rightarrow> bool \<Rightarrow> (string \<times> real) list option \<Rightarrow> bool
     \<Rightarrow> int option \<Rightarrow> error + user list" where
  "generate_users G entropy n_users conversion_rate ab_test channel_pct seasonality_enabled seed =
     (let rng = default_rng G seed entropy;
          channel_pct = (case channel_pct of
                           None \<Rightarrow> [(''ads'', 30), (''organic'', 50), (''referral'', 20)]
                         | Some c \<Rightarrow> c);
          total = (if sum_list (map snd channel_pct) = 0 then 1
                   else sum_list (map snd channel_pct));
          channels = map fst channel_pct;
          probs = map (\<lambda>c. snd c / total) channel_pct;
          probs = map (\<lambda>x. pf_div (Finite x) (Finite (sum_list probs))) probs;
          days_span = 365
      in case rng_uniform_n G 0 (real_of_int days_span) n_users rng of
           Inl e \<Rightarrow> Inl e
         | Inr (xs, rng1) \<Rightarrow>
             (let registered_at =
                    map (\<lambda>x. pd_Timedelta_days (min (py_int x) (days_span - 1))) xs
              in case rng_choice G channels probs n_users rng1 of
                   Inl e \<Rightarrow> Inl e
                 | Inr (chan, rng2) \<Rightarrow>
                     (case series_dt_month registered_at of
                        Inl e \<Rightarrow> Inl e
                      | Inr reg_months \<Rightarrow>
                          (let (conv, rng3) =
                                 conversions G conversion_rate seasonality_enabled
                                   (zip chan reg_months) rng2
                           in case (if ab_test
                                    then rng_choice G [''control'', ''test'']
                                           [Finite (1 / 2), Finite (1 / 2)] n_users rng3
                                    else Inr (replicate n_users ''control'', rng3)) of
                                Inl e \<Rightarrow> Inl e
                              | Inr (var, rng4) \<Rightarrow>
                                  Inr (users_frame (map int [1..<Suc n_users])
                                         (sort registered_at) conv var chan)))))"

text \<open>
  A generator for the examples: it replays a fixed list of doubles (0 once the list is
  used up); an integer draw scales the next double to the range.
\<close>

definition replay :: "real list \<Rightarrow> nat bit_generator" where
  "replay ds =
     \<lparr>seeded = (\<lambda>k. 0),
      next_double = (\<lambda>i. (if i < length ds then ds ! i else 0, Suc i)),
      next_integer = (\<lambda>lo hi i.
         (lo + \<lfloor>real_of_int (hi - lo) * (if i < length ds then ds ! i else 0)\<rfloor>, Suc i))\<rparr>"

section \<open>Payment generator\<close>

text \<open>
  The inner loop \<open>for _ in range(n_repeat)\<close> of \<open>generate_payments\<close>; the first argument
  counts the iterations left.  It returns the rows it appends, the next payment id and
  the generator state.
\<close>

fun repeat_payments ::
  "'s bit_generator \<Rightarrow> nat \<Rightarrow> int \<Rightarrow> real \<Rightarrow> real \<Rightarrow> real \<Rightarrow> timestamp \<Rightarrow> nat \<Rightarrow> int \<Rightarrow> 's
     \<Rightarrow> error + (payment list \<times> int \<times> 's)" where
  "repeat_payments G 0 uid churn_days min_amount max_amount last_paid payment_number pid rng =
     Inr ([], pid, rng)"
| "repeat_payments G (Suc k) uid churn_days min_amount max_amount last_paid payment_number pid rng =
     (case rng_uniform G 7 (min churn_days 70) rng of
        Inl e \<Rightarrow> Inl e
      | Inr (gap_days, rng1) \<Rightarrow>
          if gap_days > churn_days then Inr ([], pid, rng1)
          else
            let last_paid1 = last_paid + timedelta_days gap_days;
                payment_number1 = Suc payment_number
            in case (if payment_number1 \<ge> 3
                     then rng_uniform G ((min_amount + max_amount) / 2) max_amount rng1
                     else rng_uniform G min_amount max_amount rng1) of
                 Inl e \<Rightarrow> Inl e
               | Inr (amt, rng2) \<Rightarrow>
                   (case repeat_payments G k uid churn_days min_amount max_amount
                           last_paid1 payment_number1 (pid + 1) rng2 of
                      Inl e \<Rightarrow> Inl e
                    | Inr (rows, pid1, rng3) \<Rightarrow>
                        Inr (\<lparr>p_user_id = uid, payment_id = pid,
                              amount = py_round amt 2, paid_at = last_paid1\<rparr> # rows,
                             pid1, rng3)))"

text \<open>
  \<open>reg_dates.loc[uid]\<close> (the first row when the id occurs more than once): the
  registration date of the first user with that id.
\<close>

definition reg_date_of :: "user list \<Rightarrow> int \<Rightarrow> timestamp option" where
  "reg_date_of users_df uid = map_of (map (\<lambda>u. (user_id u, registered_at u)) users_df) uid"

text \<open>The body of the loop \<open>for uid in payers\<close>.\<close>

definition payer_payments ::
  "'s bit_generator \<Rightarrow> user list \<Rightarrow> real \<Rightarrow> real \<Rightarrow> real \<Rightarrow> real \<Rightarrow> real \<Rightarrow> real \<Rightarrow> int \<Rightarrow> int \<Rightarrow> 's
     \<Rightarrow> error + (payment list \<times> int \<times> 's)" where
  "payer_payments G users_df min_amount max_amount first_payment_min first_payment_max
       churn_days repeat_rate uid pid rng =
     (case reg_date_of users_df uid of
        None \<Rightarrow> Inl KeyError
      | Some reg \<Rightarrow>
          (case rng_uniform G 0 30 rng of
             Inl e \<Rightarrow> Inl e
           | Inr (first_days, rng1) \<Rightarrow>
               (let last_paid = reg + timedelta_days first_days
                in case rng_uniform G first_payment_min first_payment_max rng1 of
                     Inl e \<Rightarrow> Inl e
                   | Inr (amt, rng2) \<Rightarrow>
                       (let row = \<lparr>p_user_id = uid, payment_id = pid,
                                   amount = py_round amt 2, paid_at = last_paid\<rparr>;
                            (u, rng3) = next_double G rng2
                        in if \<not> (u < repeat_rate) then Inr ([row], pid + 1, rng3)
                           else
                             let (n_repeat, rng4) = next_integer G 1 6 rng3
                             in case repeat_payments G (nat n_repeat) uid churn_days
                                       min_amount max_amount last_paid 1 (pid + 1) rng4 of
                                  Inl e \<Rightarrow> Inl e
                                | Inr (rows, pid1, rng5) \<Rightarrow> Inr (row # rows, pid1, rng5)))))"

fun payers_loop ::
  "'s bit_generator \<Rightarrow> user list \<Rightarrow> real \<Rightarrow> real \<Rightarrow> real \<Rightarrow> real \<Rightarrow> real \<Rightarrow> real \<Rightarrow> int list \<Rightarrow> int
     \<Rightarrow> 's \<Rightarrow> error + payment list" where
  "payers_loop G users_df min_amount max_amount first_payment_min first_payment_max
       churn_days repeat_rate [] pid rng = Inr []"
| "payers_loop G users_df min_amount max_amount first_payment_min first_payment_max
       churn_days repeat_rate (uid # payers) pid rng =
     (case payer_payments G users_df min_amount max_amount first_payment_min first_payment_max
             churn_days repeat_rate uid pid rng of
        Inl e \<Rightarrow> Inl e
      | Inr (rows, pid1, rng1) \<Rightarrow>
          (case payers_loop G users_df min_amount max_amount first_payment_min
                  first_payment_max churn_days repeat_rate payers pid1 rng1 of
             Inl e \<Rightarrow> Inl e
           | Inr rest \<Rightarrow> Inr (rows @ rest)))"

definition generate_payments ::
  "'s bit_generator \<Rightarrow> 's \<Rightarrow> user list \<Rightarrow> real \<Rightarrow> real \<Rightarrow> real \<Rightarrow> real \<Rightarrow> real \<Rightarrow> real \<Rightarrow> real
     \<Rightarrow> int option \<Rightarrow> error + payment list" where
  "generate_payments G entropy users_df min_amount max_amount first_payment_min
       first_payment_max churn_months pay_rate repeat_rate seed =
     (let rng = default_rng G seed entropy;
          churn_days = churn_months * 30;
          n_users = length users_df;
          (draws, rng1) = rng_random_n G n_users rng;
          payers_mask = map (\<lambda>u. u < pay_rate) draws;
          payers = map (user_id \<circ> fst) (filter snd (zip users_df payers_mask))
      in payers_loop G users_df min_amount max_amount first_payment_min first_payment_max
           churn_days repeat_rate payers 1 rng1)"

text \<open>Two users for the examples, registered on 11 January and on 20 July 2025.\<close>

definition two_users :: "user list" where
  "two_users =
     [\<lparr>user_id = 1, registered_at = 10 * us_per_day, converted = False,
       variant = ''control'', channel = ''organic''\<rparr>,
      \<lparr>user_id = 2, registered_at = 200 * us_per_day, converted = True,
       variant = ''control'', channel = ''organic''\<rparr>]"

section \<open>Facts about the user generator\<close>

lemma month_of_day_10: "month_of (10 * us_per_day) = 1"
  by code_simp

lemma month_of_day_200: "month_of (200 * us_per_day) = 7"
  by code_simp

lemma rng_random_n_length: "rng_random_n G n s = (xs, s1) \<Longrightarrow> length xs = n"
  by (induction n arbitrary: s xs s1) (auto simp: Let_def split: prod.splits)

lemma those_or_error_length: "those_or_error xs = Inr ys \<Longrightarrow> length ys = length xs"
proof (induction xs arbitrary: ys)
  case Nil
  then show ?case by simp
next
  case (Cons x xs)
  then show ?case
    by (cases x) (auto split: sum.splits)
qed

lemma rng_choice_length: "rng_choice G a p n s = Inr (xs, s1) \<Longrightarrow> length xs = n"
  by (auto simp: rng_choice_def Let_def split: if_splits option.splits prod.splits sum.splits
      dest!: those_or_error_length rng_random_n_length)

lemma conversions_length:
  "conversions G rate enabled cms rng = (cs, rng1) \<Longrightarrow> length cs = length cms"
  by (induction cms arbitrary: rng cs rng1) (auto simp: Let_def split: prod.splits)

lemma users_frame_ids:
  "length rs = length is \<Longrightarrow> length cs = length is \<Longrightarrow> length vs = length is
     \<Longrightarrow> length chs = length is \<Longrightarrow> map user_id (users_frame is rs cs vs chs) = is"
proof (induction "is" arbitrary: rs cs vs chs)
  case Nil
  then show ?case by simp
next
  case (Cons i "is")
  then show ?case
    by (cases rs; cases cs; cases vs; cases chs) auto
qed

text \<open>
  Whenever \<open>generate_users\<close> returns, it returns \<open>n_users\<close> rows with the ids 1..n_users.
\<close>

lemma rng_uniform_n_length: "rng_uniform_n G low high n s = Inr (xs, s1) \<Longrightarrow> length xs = n"
  by (auto simp: rng_uniform_n_def Let_def split: if_splits prod.splits
      dest: rng_random_n_length)

lemma series_dt_month_length: "series_dt_month ts = Inr ms \<Longrightarrow> length ms = length ts"
  by (auto simp: series_dt_month_def split: if_splits)

lemma variant_column_length:
  "(if ab_test then rng_choice G a p n s else Inr (replicate n c, s)) = Inr (var, s1)
     \<Longrightarrow> length var = n"
  by (auto split: if_splits dest: rng_choice_length)

lemma generate_users_ids:
  assumes "generate_users G entropy n_users conversion_rate ab_test channel_pct
             seasonality_enabled seed = Inr users"
  shows "map user_id users = map int [1..<Suc n_users]"
  using assms unfolding generate_users_def Let_def
  by (auto simp del: upt_Suc simp: users_frame_ids
      split: sum.splits prod.splits
      dest!: rng_uniform_n_length rng_choice_length series_dt_month_length conversions_length
        variant_column_length)

lemma generate_users_length:
  assumes "generate_users G entropy n_users conversion_rate ab_test channel_pct
             seasonality_enabled seed = Inr users"
  shows "length users = n_users"
proof -
  have "length (map user_id users) = length (map int [1..<Suc n_users])"
    using generate_users_ids [OF assms] by simp
  then show ?thesis by simp
qed

text \<open>
  Claim C6 (failing input).  With \<open>n_users = 0\<close> and the default channel shares the date
  and channel draws are empty, and \<open>pd.Series([]).dt\<close> raises AttributeError: no empty
  dataset is returned.
\<close>

theorem generate_users_zero_raises:
  "generate_users G entropy 0 conversion_rate ab_test None seasonality_enabled seed
     = Inl AttributeError"
  by (simp add: generate_users_def rng_uniform_n_def rng_choice_def series_dt_month_def
        Let_def)

text \<open>An instance with the replaying generator, seed 42, base conversion 12 %.\<close>

theorem generate_users_zero_raises_witness:
  "generate_users (replay []) 0 0 12 True None True (Some 42) = Inl AttributeError"
  by (rule generate_users_zero_raises)

text \<open>
  Claim C1 (failing input).  Two users, base conversion 50 %, one channel (organic),
  seasonality on.  The date draws are day 200 (20 July) and day 10 (11 January), every
  other draw is 1/2.  The conversion of the first drawn user is decided with the July
  multiplier and fails (1/2 is not below 0.425), the second with the January multiplier
  and succeeds; then the dates alone are sorted.  Record 1 is registered on 11 January,
  where the claimed probability is 0.6 and the draw 1/2 would convert, but its
  \<open>converted\<close> field is False.
\<close>

theorem generate_users_conversion_month_mismatch:
  "generate_users (replay [200 / 365, 10 / 365, 1 / 2, 1 / 2, 1 / 2, 1 / 2]) 0 2 50 False
       (Some [(''organic'', 100)]) True (Some 42)
     = Inr [\<lparr>user_id = 1, registered_at = 10 * us_per_day, converted = False,
              variant = ''control'', channel = ''organic''\<rparr>,
            \<lparr>user_id = 2, registered_at = 200 * us_per_day, converted = True,
              variant = ''control'', channel = ''organic''\<rparr>]
   \<and> month_of (10 * us_per_day) = 1
   \<and> conversion_probability 50 ''organic'' 1 True = 6 / 10
   \<and> (1 / 2 :: real) < 6 / 10"
proof -
  have "generate_users (replay [200 / 365, 10 / 365, 1 / 2, 1 / 2, 1 / 2, 1 / 2]) 0 2 50 False
       (Some [(''organic'', 100)]) True (Some 42)
     = Inr [\<lparr>user_id = 1, registered_at = 10 * us_per_day, converted = False,
              variant = ''control'', channel = ''organic''\<rparr>,
            \<lparr>user_id = 2, registered_at = 200 * us_per_day, converted = True,
              variant = ''control'', channel = ''organic''\<rparr>]"
    by code_simp
  moreover have "conversion_probability 50 ''organic'' 1 True = 6 / 10"
    by (simp add: conversion_probability_def CHANNEL_CONVERSION_MULT_def
        seasonality_mult_def Let_def)
  ultimately show ?thesis
    by (simp add: month_of_day_10)
qed

text \<open>
  Claim C8.  With a seed, the datasets do not depend on the entropy of the run: two runs
  of \<open>generate_users\<close> with the same parameters give the same users, and two runs of
  \<open>generate_payments\<close> on the same users give the same payments.
\<close>

theorem generators_deterministic_with_seed:
  "generate_users G entropy1 n_users conversion_rate ab_test channel_pct seasonality_enabled
       (Some seed)
     = generate_users G entropy2 n_users conversion_rate ab_test channel_pct
         seasonality_enabled (Some seed)
   \<and> generate_payments G entropy1 users_df min_amount max_amount first_payment_min
         first_payment_max churn_months pay_rate repeat_rate (Some seed)
     = generate_payments G entropy2 users_df min_amount max_amount first_payment_min
         first_payment_max churn_months pay_rate repeat_rate (Some seed)"
  by (simp add: generate_users_def generate_payments_def default_rng_def)

text \<open>
  Two runs from different entropy (states 0 and 3 of the replaying generator): with seed 42
  they agree, as the theorem says; without a seed they differ.
\<close>

theorem generators_deterministic_with_seed_witness:
  "generate_users (replay [200 / 365, 10 / 365, 1 / 2, 1 / 2, 1 / 2, 1 / 2]) 0 2 50 False
       (Some [(''organic'', 100)]) True (Some 42)
     = generate_users (replay [200 / 365, 10 / 365, 1 / 2, 1 / 2, 1 / 2, 1 / 2]) 3 2 50 False
         (Some [(''organic'', 100)]) True (Some 42)
   \<and> generate_payments (replay [200 / 365, 10 / 365, 1 / 2, 1 / 2, 1 / 2, 1 / 2]) 0 two_users
         99 5000 299 499 3 (15 / 100) (3 / 10) (Some 42)
     = generate_payments (replay [200 / 365, 10 / 365, 1 / 2, 1 / 2, 1 / 2, 1 / 2]) 3 two_users
         99 5000 299 499 3 (15 / 100) (3 / 10) (Some 42)"
  by (rule generators_deterministic_with_seed)

lemma generate_users_without_seed_differs:
  "generate_users (replay [200 / 365, 10 / 365, 1 / 2, 1 / 2, 1 / 2, 1 / 2]) 0 2 50 False
       (Some [(''organic'', 100)]) True None
     \<noteq> generate_users (replay [200 / 365, 10 / 365, 1 / 2, 1 / 2, 1 / 2, 1 / 2]) 3 2 50 False
         (Some [(''organic'', 100)]) True None"
  by code_simp


text \<open>The payments of one user, in the order of the table, and amounts in whole cents.\<close>

definition payments_of :: "int \<Rightarrow> payment list \<Rightarrow> payment list" where
  "payments_of uid rows = filter (\<lambda>p. p_user_id p = uid) rows"

definition whole_cents :: "real \<Rightarrow> bool" where
  "whole_cents x \<longleftrightarrow> x * 100 = of_int \<lfloor>x * 100\<rfloor>"

text \<open>
  What the generator guarantees for the rows \<open>rs\<close> of one payer: the payer is a user, has
  at least one row, every row is the payer's and not before the registration, the
  timestamps increase strictly, and the first amount is a value of the first-payment range
  rounded to two decimals.
\<close>

definition payer_ok :: "user list \<Rightarrow> real \<Rightarrow> real \<Rightarrow> int \<Rightarrow> payment list \<Rightarrow> bool" where
  "payer_ok users_df first_payment_min first_payment_max uid rs \<longleftrightarrow>
     (\<exists>reg a. reg_date_of users_df uid = Some reg
        \<and> rs \<noteq> []
        \<and> (\<forall>p \<in> set rs. p_user_id p = uid \<and> reg \<le> paid_at p)
        \<and> sorted_wrt (<) (map paid_at rs)
        \<and> first_payment_min \<le> a \<and> a \<le> first_payment_max
        \<and> amount (hd rs) = py_round a 2)"

text \<open>
  Draws for the examples.  With \<open>demo_draws\<close> both users of \<open>two_users\<close> pay (0.1 and 0.1
  are below the pay rate 0.15); user 1 pays after 15 days, repeats (0.2 is below 0.3) twice
  (the integer draw gives 2) with gaps of 38.5 and 44.8 days; user 2 pays after 21 days
  and does not repeat.
\<close>

definition demo_draws :: "real list" where
  "demo_draws = [1 / 10, 1 / 10, 1 / 2, 1 / 4, 1 / 5, 3 / 10, 1 / 2, 1 / 2, 6 / 10, 6 / 10,
                 7 / 10, 7 / 10, 9 / 10]"

definition demo_generated :: "payment list" where
  "demo_generated =
     [\<lparr>p_user_id = 1, payment_id = 1, amount = 349, paid_at = 2160000000000\<rparr>,
      \<lparr>p_user_id = 1, payment_id = 2, amount = 5099 / 2, paid_at = 5486400000000\<rparr>,
      \<lparr>p_user_id = 1, payment_id = 3, amount = 20099 / 5, paid_at = 9357120000000\<rparr>,
      \<lparr>p_user_id = 2, payment_id = 4, amount = 439, paid_at = 19094400000000\<rparr>]"

text \<open>Draws of one payer who repeats three times.\<close>

definition repeat_draws :: "real list" where
  "repeat_draws = [1 / 10, 1 / 2, 1 / 5, 1 / 2, 1 / 2, 1 / 2, 1 / 2, 1 / 2, 1 / 2, 1 / 2]"

section \<open>Facts about the random source, rounding and time deltas\<close>

lemma next_double_range:
  assumes "rng_ok G" and "next_double G s = (u, s1)"
  shows "0 \<le> u" and "u < 1"
  using assms by (auto simp: rng_ok_def dest: spec [of _ s])

lemma rng_uniform_range:
  assumes "rng_ok G" and "rng_uniform G low high s = Inr (x, s1)"
  shows "low \<le> x" and "x \<le> high"
proof -
  from assms(2) obtain u where le: "low \<le> high" and u: "next_double G s = (u, s1)"
    and x: "x = low + (high - low) * u"
    by (auto simp: rng_uniform_def Let_def split: if_splits prod.splits)
  have u01: "0 \<le> u" "u < 1"
    using next_double_range [OF assms(1) u] by simp_all
  have "0 \<le> (high - low) * u"
    using le u01 by simp
  then show "low \<le> x"
    by (simp add: x)
  have "(high - low) * u \<le> (high - low) * 1"
    using le u01 by (intro mult_left_mono) simp_all
  then show "x \<le> high"
    by (simp add: x)
qed

lemma rng_uniform_total:
  assumes "low \<le> high"
  shows "\<exists>x s1. rng_uniform G low high s = Inr (x, s1)"
  using assms by (simp add: rng_uniform_def Let_def split: prod.splits)

lemma round_half_even_ge:
  assumes "of_int k \<le> x"
  shows "k \<le> round_half_even x"
proof -
  have "k \<le> \<lfloor>x\<rfloor>"
    using assms by (simp add: le_floor_iff)
  then show ?thesis
    by (auto simp: round_half_even_def Let_def)
qed

lemma round_half_even_le:
  assumes "x \<le> of_int k"
  shows "round_half_even x \<le> k"
proof (cases "\<lfloor>x\<rfloor> = k")
  case True
  then have "x = of_int k"
    using assms by (metis of_int_floor_le order_antisym)
  then show ?thesis
    by (simp add: round_half_even_def)
next
  case False
  moreover have "\<lfloor>x\<rfloor> \<le> k"
    using assms by (simp add: floor_le_iff)
  ultimately have "\<lfloor>x\<rfloor> + 1 \<le> k"
    by simp
  then show ?thesis
    by (auto simp: round_half_even_def Let_def)
qed

lemma timedelta_days_nonneg: "0 \<le> x \<Longrightarrow> 0 \<le> timedelta_days x"
  unfolding timedelta_days_def
  by (rule round_half_even_ge) (simp add: us_per_day_def)

lemma timedelta_days_pos:
  assumes "7 \<le> x"
  shows "0 < timedelta_days x"
proof -
  have "of_int (7 * us_per_day) \<le> x * real_of_int us_per_day"
    using assms by (simp add: us_per_day_def)
  then have "7 * us_per_day \<le> timedelta_days x"
    unfolding timedelta_days_def by (rule round_half_even_ge)
  then show ?thesis
    by (simp add: us_per_day_def)
qed

section \<open>The churn cut-off of the payment generator\<close>

lemma repeat_gap_range:
  assumes "rng_ok G" and "rng_uniform G 7 (min churn_days 70) s = Inr (gap_days, s1)"
  shows "7 \<le> gap_days" and "gap_days \<le> min churn_days 70" and "\<not> gap_days > churn_days"
proof -
  show "7 \<le> gap_days" and le: "gap_days \<le> min churn_days 70"
    using rng_uniform_range [OF assms] by simp_all
  show "\<not> gap_days > churn_days"
    using le by simp
qed

lemma repeat_payments_never_cut:
  assumes "rng_ok G" and "7 \<le> churn_days" and "min_amount \<le> max_amount"
  shows "\<exists>rows s1. repeat_payments G k uid churn_days min_amount max_amount
                      last_paid payment_number pid s = Inr (rows, pid + int k, s1)
                    \<and> length rows = k"
proof (induction k arbitrary: last_paid payment_number pid s)
  case 0
  then show ?case by simp
next
  case (Suc k)
  obtain gap s1 where gap: "rng_uniform G 7 (min churn_days 70) s = Inr (gap, s1)"
    using rng_uniform_total [of 7 "min churn_days 70" G s] assms(2) by auto
  have nocut: "\<not> gap > churn_days"
    using repeat_gap_range(3) [OF assms(1) gap] .
  have "\<exists>amt s2. (if Suc payment_number \<ge> 3
                    then rng_uniform G ((min_amount + max_amount) / 2) max_amount s1
                    else rng_uniform G min_amount max_amount s1) = Inr (amt, s2)"
    using rng_uniform_total [of "(min_amount + max_amount) / 2" max_amount G s1]
      rng_uniform_total [of min_amount max_amount G s1] assms(3)
    by auto
  then obtain amt s2 where amt:
    "(if Suc payment_number \<ge> 3
      then rng_uniform G ((min_amount + max_amount) / 2) max_amount s1
      else rng_uniform G min_amount max_amount s1) = Inr (amt, s2)"
    by blast
  obtain rows s3 where rec:
    "repeat_payments G k uid churn_days min_amount max_amount
       (last_paid + timedelta_days gap) (Suc payment_number) (pid + 1) s2
     = Inr (rows, pid + 1 + int k, s3)" and len: "length rows = k"
    using Suc.IH by blast
  show ?case
    using gap nocut amt rec len by (simp add: Let_def)
qed

lemma next_integer_range:
  assumes "rng_ok G" and "low < high"
  shows "low \<le> fst (next_integer G low high s)" and "fst (next_integer G low high s) < high"
  using assms by (auto simp: rng_ok_def)

lemma payer_payments_repeat_count:
  assumes "rng_ok G" and "7 \<le> churn_days" and "min_amount \<le> max_amount"
    and "first_payment_min \<le> first_payment_max"
    and "reg_date_of users_df uid = Some reg"
    and "fst (next_double G (snd (next_double G (snd (next_double G s))))) < repeat_rate"
  defines "k \<equiv> fst (next_integer G 1 6
                      (snd (next_double G (snd (next_double G (snd (next_double G s)))))))"
  shows "1 \<le> k \<and> k \<le> 5
         \<and> (\<exists>rows s1. payer_payments G users_df min_amount max_amount first_payment_min
                          first_payment_max churn_days repeat_rate uid pid s
                        = Inr (rows, pid + 1 + k, s1)
                      \<and> int (length rows) = 1 + k)"
proof -
  define s3 where "s3 = snd (next_double G (snd (next_double G (snd (next_double G s)))))"
  define s4 where "s4 = snd (next_integer G 1 6 s3)"
  have k: "1 \<le> k" "k < 6"
    using next_integer_range [OF assms(1), of 1 6 s3] by (simp_all add: k_def s3_def)
  obtain rows s5 where rep:
    "repeat_payments G (nat k) uid churn_days min_amount max_amount
       (reg + timedelta_days (0 + (30 - 0) * fst (next_double G s))) 1 (pid + 1) s4
     = Inr (rows, pid + 1 + int (nat k), s5)" and len: "length rows = nat k"
    using repeat_payments_never_cut [OF assms(1,2,3)] by blast
  have "payer_payments G users_df min_amount max_amount first_payment_min
          first_payment_max churn_days repeat_rate uid pid s
        = Inr (\<lparr>p_user_id = uid, payment_id = pid,
                 amount = py_round (first_payment_min
                            + (first_payment_max - first_payment_min)
                              * fst (next_double G (snd (next_double G s)))) 2,
                 paid_at = reg + timedelta_days (0 + (30 - 0) * fst (next_double G s))\<rparr> # rows,
               pid + 1 + int (nat k), s5)"
    using assms(4,5,6) rep
    by (simp add: payer_payments_def rng_uniform_def Let_def case_prod_beta k_def s3_def s4_def)
  then show ?thesis
    using k len by auto
qed

text \<open>
  Claim C10.  With a valid amount range and \<open>churn_months * 30 \<ge> 7\<close>: every repeat gap
  that is drawn lies in [7, min(churn_days, 70)] and so never exceeds \<open>churn_days\<close>; the
  repeat loop is never cut short (\<open>k\<close> iterations append \<open>k\<close> payments); and a payer whose
  repeat draw (the third double of the payer's draws) is below \<open>repeat_rate\<close> emits
  1 + k payments for the integer \<open>k\<close> drawn next, which lies in [1, 5].
\<close>

theorem churn_cutoff_unreachable:
  assumes "rng_ok G" and "7 \<le> churn_months * 30" and "min_amount \<le> max_amount"
    and "first_payment_min \<le> first_payment_max"
    and "reg_date_of users_df uid = Some reg"
  shows "(\<forall>s gap_days s1.
            rng_uniform G 7 (min (churn_months * 30) 70) s = Inr (gap_days, s1)
            \<longrightarrow> 7 \<le> gap_days \<and> gap_days \<le> min (churn_months * 30) 70
                \<and> \<not> gap_days > churn_months * 30)
       \<and> (\<forall>n last_paid payment_number pid s.
            \<exists>rows s1. repeat_payments G n uid (churn_months * 30) min_amount max_amount
                         last_paid payment_number pid s = Inr (rows, pid + int n, s1)
                       \<and> length rows = n)
       \<and> (\<forall>pid s.
            fst (next_double G (snd (next_double G (snd (next_double G s))))) < repeat_rate
            \<longrightarrow> (let k = fst (next_integer G 1 6
                              (snd (next_double G (snd (next_double G (snd (next_double G s)))))))
                 in 1 \<le> k \<and> k \<le> 5
                    \<and> (\<exists>rows s1.
                          payer_payments G users_df min_amount max_amount first_payment_min
                            first_payment_max (churn_months * 30) repeat_rate uid pid s
                          = Inr (rows, pid + 1 + k, s1)
                          \<and> int (length rows) = 1 + k)))"
proof -
  have gaps: "\<forall>s gap_days s1.
            rng_uniform G 7 (min (churn_months * 30) 70) s = Inr (gap_days, s1)
            \<longrightarrow> 7 \<le> gap_days \<and> gap_days \<le> min (churn_months * 30) 70
                \<and> \<not> gap_days > churn_months * 30"
    using repeat_gap_range [OF assms(1)] by blast
  have loop: "\<forall>n last_paid payment_number pid s.
            \<exists>rows s1. repeat_payments G n uid (churn_months * 30) min_amount max_amount
                         last_paid payment_number pid s = Inr (rows, pid + int n, s1)
                       \<and> length rows = n"
    using repeat_payments_never_cut [OF assms(1,2,3)] by blast
  have payer: "\<forall>pid s.
            fst (next_double G (snd (next_double G (snd (next_double G s))))) < repeat_rate
            \<longrightarrow> (let k = fst (next_integer G 1 6
                              (snd (next_double G (snd (next_double G (snd (next_double G s)))))))
                 in 1 \<le> k \<and> k \<le> 5
                    \<and> (\<exists>rows s1.
                          payer_payments G users_df min_amount max_amount first_payment_min
                            first_payment_max (churn_months * 30) repeat_rate uid pid s
                          = Inr (rows, pid + 1 + k, s1)
                          \<and> int (length rows) = 1 + k))"
    unfolding Let_def
    using payer_payments_repeat_count [OF assms] by blast
  show ?thesis
    by (rule conjI [OF gaps conjI [OF loop payer]])
qed

section \<open>Invariants of the payment generator\<close>

lemma repeat_payments_rows:
  assumes "rng_ok G"
    and "repeat_payments G k uid churn_days min_amount max_amount last_paid payment_number pid s
           = Inr (rows, pid1, s1)"
  shows "(\<forall>p \<in> set rows. p_user_id p = uid \<and> last_paid < paid_at p)
         \<and> sorted_wrt (<) (map paid_at rows)"
  using assms(2)
proof (induction k arbitrary: last_paid payment_number pid s rows pid1 s1)
  case 0
  then show ?case by simp
next
  case (Suc k)
  from Suc.prems obtain gap sa where gap: "rng_uniform G 7 (min churn_days 70) s = Inr (gap, sa)"
    by (auto split: sum.splits)
  show ?case
  proof (cases "gap > churn_days")
    case True
    then show ?thesis
      using Suc.prems gap by simp
  next
    case False
    define last1 where "last1 = last_paid + timedelta_days gap"
    have "7 \<le> gap"
      using rng_uniform_range(1) [OF assms(1) gap] .
    then have later: "last_paid < last1"
      using timedelta_days_pos [of gap] by (simp add: last1_def)
    from Suc.prems gap False obtain amt sb rows' pid' sc where
      rec: "repeat_payments G k uid churn_days min_amount max_amount last1
              (Suc payment_number) (pid + 1) sb = Inr (rows', pid', sc)"
      and rows: "rows = \<lparr>p_user_id = uid, payment_id = pid, amount = py_round amt 2,
                         paid_at = last1\<rparr> # rows'"
      by (auto simp: Let_def last1_def split: sum.splits)
    have ih: "(\<forall>p \<in> set rows'. p_user_id p = uid \<and> last1 < paid_at p)
              \<and> sorted_wrt (<) (map paid_at rows')"
      using Suc.IH [OF rec] .
    show ?thesis
      using ih later by (auto simp: rows)
  qed
qed

lemma payer_payments_rows:
  assumes "rng_ok G"
    and "payer_payments G users_df min_amount max_amount first_payment_min first_payment_max
           churn_days repeat_rate uid pid s = Inr (rows, pid1, s1)"
  shows "\<exists>reg a. reg_date_of users_df uid = Some reg
           \<and> rows \<noteq> []
           \<and> (\<forall>p \<in> set rows. p_user_id p = uid \<and> reg \<le> paid_at p)
           \<and> sorted_wrt (<) (map paid_at rows)
           \<and> first_payment_min \<le> a \<and> a \<le> first_payment_max
           \<and> amount (hd rows) = py_round a 2"
proof -
  from assms(2) obtain reg where reg: "reg_date_of users_df uid = Some reg"
    by (auto simp: payer_payments_def split: option.splits)
  from assms(2) reg obtain first_days sa where
    fd: "rng_uniform G 0 30 s = Inr (first_days, sa)"
    by (auto simp: payer_payments_def split: sum.splits)
  from assms(2) reg fd obtain a sb where
    amt: "rng_uniform G first_payment_min first_payment_max sa = Inr (a, sb)"
    by (auto simp: payer_payments_def Let_def split: sum.splits)
  define last_paid where "last_paid = reg + timedelta_days first_days"
  define row where "row = \<lparr>p_user_id = uid, payment_id = pid, amount = py_round a 2,
                            paid_at = last_paid\<rparr>"
  have "0 \<le> first_days"
    using rng_uniform_range(1) [OF assms(1) fd] .
  then have first: "reg \<le> last_paid"
    using timedelta_days_nonneg [of first_days] by (simp add: last_paid_def)
  have a: "first_payment_min \<le> a" "a \<le> first_payment_max"
    using rng_uniform_range [OF assms(1) amt] by simp_all
  from assms(2) reg fd amt have
    "rows = [row]
     \<or> (\<exists>n more pid' sc sd. repeat_payments G n uid churn_days min_amount max_amount last_paid 1
                               (pid + 1) sc = Inr (more, pid', sd)
                             \<and> rows = row # more)"
    by (auto simp: payer_payments_def Let_def last_paid_def row_def
        split: sum.splits prod.splits if_splits)
  then show ?thesis
  proof
    assume "rows = [row]"
    then show ?thesis
      using reg first a by (auto simp: row_def)
  next
    assume "\<exists>n more pid' sc sd. repeat_payments G n uid churn_days min_amount max_amount
                                  last_paid 1 (pid + 1) sc = Inr (more, pid', sd)
                                \<and> rows = row # more"
    then obtain n more pid' sc sd where
      rep: "repeat_payments G n uid churn_days min_amount max_amount last_paid 1 (pid + 1) sc
              = Inr (more, pid', sd)"
      and rows: "rows = row # more"
      by blast
    have more: "(\<forall>p \<in> set more. p_user_id p = uid \<and> last_paid < paid_at p)
                \<and> sorted_wrt (<) (map paid_at more)"
      using repeat_payments_rows [OF assms(1) rep] .
    have "(\<forall>p \<in> set rows. p_user_id p = uid \<and> reg \<le> paid_at p)"
      using more first by (auto simp: rows row_def)
    moreover have "sorted_wrt (<) (map paid_at rows)"
      using more by (auto simp: rows row_def)
    moreover have "amount (hd rows) = py_round a 2"
      by (simp add: rows row_def)
    ultimately show ?thesis
      using reg a rows by blast
  qed
qed

lemma payers_loop_rows:
  assumes "rng_ok G" and "distinct payers"
    and "payers_loop G users_df min_amount max_amount first_payment_min first_payment_max
           churn_days repeat_rate payers pid s = Inr rows"
  shows "(\<forall>p \<in> set rows. p_user_id p \<in> set payers)
         \<and> (\<forall>uid \<in> set payers.
               payer_ok users_df first_payment_min first_payment_max uid (payments_of uid rows))"
  using assms(2,3)
proof (induction payers arbitrary: pid s rows)
  case Nil
  then show ?case by simp
next
  case (Cons uid payers)
  from Cons.prems(2) obtain r1 pid1 s1 rest where
    one: "payer_payments G users_df min_amount max_amount first_payment_min first_payment_max
            churn_days repeat_rate uid pid s = Inr (r1, pid1, s1)"
    and loop: "payers_loop G users_df min_amount max_amount first_payment_min first_payment_max
                 churn_days repeat_rate payers pid1 s1 = Inr rest"
    and rows: "rows = r1 @ rest"
    by (auto split: sum.splits)
  have ok1: "payer_ok users_df first_payment_min first_payment_max uid r1"
    using payer_payments_rows [OF assms(1) one] unfolding payer_ok_def .
  then have ids1: "\<forall>p \<in> set r1. p_user_id p = uid"
    by (auto simp: payer_ok_def)
  have ih: "(\<forall>p \<in> set rest. p_user_id p \<in> set payers)
            \<and> (\<forall>u \<in> set payers.
                  payer_ok users_df first_payment_min first_payment_max u (payments_of u rest))"
    using Cons.IH [OF _ loop] Cons.prems(1) by simp
  have fresh: "uid \<notin> set payers"
    using Cons.prems(1) by simp
  have own: "payments_of uid rows = r1"
  proof -
    have "filter (\<lambda>p. p_user_id p = uid) r1 = r1"
      using ids1 by (simp add: filter_id_conv)
    moreover have "filter (\<lambda>p. p_user_id p = uid) rest = []"
      using ih fresh by (auto simp: filter_empty_conv)
    ultimately show ?thesis
      by (simp add: payments_of_def rows)
  qed
  have others: "payments_of u rows = payments_of u rest" if "u \<in> set payers" for u
  proof -
    have "u \<noteq> uid"
      using that fresh by auto
    then have "filter (\<lambda>p. p_user_id p = u) r1 = []"
      using ids1 by (auto simp: filter_empty_conv)
    then show ?thesis
      by (simp add: payments_of_def rows)
  qed
  show ?case
    using ids1 ih ok1 own others by (auto simp: rows)
qed

lemma distinct_selected:
  assumes "distinct (map f xs)"
  shows "distinct (map (f \<circ> fst) (filter P (zip xs ys)))"
  using assms
proof (induction xs arbitrary: ys)
  case Nil
  then show ?case by simp
next
  case (Cons x xs)
  show ?case
  proof (cases ys)
    case Nil
    then show ?thesis by simp
  next
    case (Cons y ys')
    have "f x \<notin> (f \<circ> fst) ` set (filter P (zip xs ys'))"
      using Cons.prems by (auto dest: set_zip_leftD)
    then show ?thesis
      using Cons.IH [of ys'] Cons.prems Cons by simp
  qed
qed

lemma reg_date_of_user:
  assumes "distinct (map user_id users_df)" and "u \<in> set users_df"
  shows "reg_date_of users_df (user_id u) = Some (registered_at u)"
proof -
  have "distinct (map fst (map (\<lambda>u. (user_id u, registered_at u)) users_df))"
    using assms(1) by (simp add: comp_def)
  moreover have "(user_id u, registered_at u)
                   \<in> set (map (\<lambda>u. (user_id u, registered_at u)) users_df)"
    using assms(2) by auto
  ultimately show ?thesis
    unfolding reg_date_of_def by (rule map_of_is_SomeI)
qed

lemma py_round_cents_ge:
  assumes "whole_cents lo" and "lo \<le> a"
  shows "lo \<le> py_round a 2"
proof -
  have "of_int \<lfloor>lo * 100\<rfloor> \<le> a * 100"
    using assms by (simp add: whole_cents_def flip: assms(1) [unfolded whole_cents_def])
  then have "\<lfloor>lo * 100\<rfloor> \<le> round_half_even (a * 100)"
    by (rule round_half_even_ge)
  then have "real_of_int \<lfloor>lo * 100\<rfloor> \<le> real_of_int (round_half_even (a * 100))"
    by simp
  then have "lo * 100 \<le> real_of_int (round_half_even (a * 100))"
    using assms(1) by (simp add: whole_cents_def)
  then show ?thesis
    by (simp add: py_round_def field_simps)
qed

lemma py_round_cents_le:
  assumes "whole_cents hi" and "a \<le> hi"
  shows "py_round a 2 \<le> hi"
proof -
  have "a * 100 \<le> of_int \<lfloor>hi * 100\<rfloor>"
    using assms by (simp add: whole_cents_def flip: assms(1) [unfolded whole_cents_def])
  then have "round_half_even (a * 100) \<le> \<lfloor>hi * 100\<rfloor>"
    by (rule round_half_even_le)
  then have "real_of_int (round_half_even (a * 100)) \<le> real_of_int \<lfloor>hi * 100\<rfloor>"
    by simp
  then have "real_of_int (round_half_even (a * 100)) \<le> hi * 100"
    using assms(1) by (simp add: whole_cents_def)
  then show ?thesis
    by (simp add: py_round_def field_simps)
qed

lemma payer_payments_total:
  assumes "rng_ok G" and "first_payment_min \<le> first_payment_max"
    and "min_amount \<le> max_amount" and "7 \<le> churn_days"
    and "reg_date_of users_df uid = Some reg"
  shows "\<exists>rows pid1 s1.
           payer_payments G users_df min_amount max_amount first_payment_min first_payment_max
             churn_days repeat_rate uid pid s = Inr (rows, pid1, s1)"
proof (cases "fst (next_double G (snd (next_double G (snd (next_double G s))))) < repeat_rate")
  case True
  from payer_payments_repeat_count [OF assms(1,4,3,2,5) True]
  show ?thesis by blast
next
  case False
  then show ?thesis
    using assms(2,5)
    by (simp add: payer_payments_def rng_uniform_def Let_def case_prod_beta)
qed

lemma payers_loop_total:
  assumes "rng_ok G" and "first_payment_min \<le> first_payment_max"
    and "min_amount \<le> max_amount" and "7 \<le> churn_days"
    and "\<forall>uid \<in> set payers. \<exists>reg. reg_date_of users_df uid = Some reg"
  shows "\<exists>rows. payers_loop G users_df min_amount max_amount first_payment_min
                   first_payment_max churn_days repeat_rate payers pid s = Inr rows"
  using assms(5)
proof (induction payers arbitrary: pid s)
  case Nil
  then show ?case by simp
next
  case (Cons uid payers)
  from Cons.prems obtain reg where "reg_date_of users_df uid = Some reg"
    by auto
  from payer_payments_total [OF assms(1-4) this]
  obtain r1 pid1 s1 where
    one: "payer_payments G users_df min_amount max_amount first_payment_min first_payment_max
            churn_days repeat_rate uid pid s = Inr (r1, pid1, s1)"
    by blast
  obtain rest where
    "payers_loop G users_df min_amount max_amount first_payment_min first_payment_max
       churn_days repeat_rate payers pid1 s1 = Inr rest"
    using Cons.IH [of pid1 s1] Cons.prems by auto
  then show ?case
    using one by simp
qed

lemma selected_payers_are_users:
  "set (map (user_id \<circ> fst) (filter snd (zip users_df chosen))) \<subseteq> user_id ` set users_df"
  by (auto dest: set_zip_leftD)

lemma reg_date_of_known:
  assumes "uid \<in> user_id ` set users_df"
  shows "\<exists>reg. reg_date_of users_df uid = Some reg"
proof -
  have "uid \<in> fst ` set (map (\<lambda>u. (user_id u, registered_at u)) users_df)"
    using assms by force
  then have "map_of (map (\<lambda>u. (user_id u, registered_at u)) users_df) uid \<noteq> None"
    by (simp add: map_of_eq_None_iff del: set_map)
  then show ?thesis
    by (auto simp: reg_date_of_def)
qed

text \<open>
  Claim C7, amended.  For a user table with distinct ids: with valid parameters (ordered
  amount ranges, \<open>churn_months * 30 \<ge> 7\<close>) \<open>generate_payments\<close> returns a table; and in
  every table it returns, no payment is before the registration of its user, the
  payments of each user have strictly increasing timestamps, and the first payment of each
  payer has an amount that is a value of [first_payment_min, first_payment_max] rounded to
  two decimals, hence within that range when both bounds are whole cents.
\<close>

theorem generate_payments_invariants:
  assumes "rng_ok G" and "distinct (map user_id users_df)"
  shows "(first_payment_min \<le> first_payment_max \<and> min_amount \<le> max_amount
            \<and> 7 \<le> churn_months * 30
          \<longrightarrow> (\<exists>rows. generate_payments G entropy users_df min_amount max_amount
                         first_payment_min first_payment_max churn_months pay_rate
                         repeat_rate seed = Inr rows))
       \<and> (\<forall>rows. generate_payments G entropy users_df min_amount max_amount
                    first_payment_min first_payment_max churn_months pay_rate
                    repeat_rate seed = Inr rows
          \<longrightarrow> (\<forall>p \<in> set rows. \<forall>u \<in> set users_df.
                   user_id u = p_user_id p \<longrightarrow> registered_at u \<le> paid_at p)
              \<and> (\<forall>uid. sorted_wrt (<) (map paid_at (payments_of uid rows)))
              \<and> (\<forall>uid. payments_of uid rows \<noteq> []
                   \<longrightarrow> (\<exists>a. first_payment_min \<le> a \<and> a \<le> first_payment_max
                            \<and> amount (hd (payments_of uid rows)) = py_round a 2))
              \<and> (whole_cents first_payment_min \<and> whole_cents first_payment_max
                   \<longrightarrow> (\<forall>uid. payments_of uid rows \<noteq> []
                          \<longrightarrow> first_payment_min \<le> amount (hd (payments_of uid rows))
                              \<and> amount (hd (payments_of uid rows)) \<le> first_payment_max)))"
proof -
  define rng where "rng = default_rng G seed entropy"
  define chosen where
    "chosen = map (\<lambda>u. u < pay_rate) (fst (rng_random_n G (length users_df) rng))"
  define payers where "payers = map (user_id \<circ> fst) (filter snd (zip users_df chosen))"
  define s1 where "s1 = snd (rng_random_n G (length users_df) rng)"
  have gp: "generate_payments G entropy users_df min_amount max_amount first_payment_min
              first_payment_max churn_months pay_rate repeat_rate seed
            = payers_loop G users_df min_amount max_amount first_payment_min first_payment_max
                (churn_months * 30) repeat_rate payers 1 s1"
    by (simp add: generate_payments_def Let_def case_prod_beta payers_def chosen_def s1_def
        rng_def)
  have dist: "distinct payers"
    unfolding payers_def using assms(2) by (rule distinct_selected)
  have known: "\<forall>uid \<in> set payers. \<exists>reg. reg_date_of users_df uid = Some reg"
    using selected_payers_are_users [of users_df chosen] reg_date_of_known
    unfolding payers_def by blast
  have total: "\<exists>rows. generate_payments G entropy users_df min_amount max_amount
                         first_payment_min first_payment_max churn_months pay_rate
                         repeat_rate seed = Inr rows"
    if "first_payment_min \<le> first_payment_max" "min_amount \<le> max_amount"
      "7 \<le> churn_months * 30"
    unfolding gp using payers_loop_total [OF assms(1) that known] .
  have props: "(\<forall>p \<in> set rows. \<forall>u \<in> set users_df.
                   user_id u = p_user_id p \<longrightarrow> registered_at u \<le> paid_at p)
              \<and> (\<forall>uid. sorted_wrt (<) (map paid_at (payments_of uid rows)))
              \<and> (\<forall>uid. payments_of uid rows \<noteq> []
                   \<longrightarrow> (\<exists>a. first_payment_min \<le> a \<and> a \<le> first_payment_max
                            \<and> amount (hd (payments_of uid rows)) = py_round a 2))
              \<and> (whole_cents first_payment_min \<and> whole_cents first_payment_max
                   \<longrightarrow> (\<forall>uid. payments_of uid rows \<noteq> []
                          \<longrightarrow> first_payment_min \<le> amount (hd (payments_of uid rows))
                              \<and> amount (hd (payments_of uid rows)) \<le> first_payment_max))"
    if ret: "generate_payments G entropy users_df min_amount max_amount first_payment_min
               first_payment_max churn_months pay_rate repeat_rate seed = Inr rows"
    for rows
  proof -
    have loop: "payers_loop G users_df min_amount max_amount first_payment_min
                  first_payment_max (churn_months * 30) repeat_rate payers 1 s1 = Inr rows"
      using ret by (simp add: gp)
    have ids: "\<forall>p \<in> set rows. p_user_id p \<in> set payers"
      and ok: "\<forall>uid \<in> set payers.
                 payer_ok users_df first_payment_min first_payment_max uid (payments_of uid rows)"
      using payers_loop_rows [OF assms(1) dist loop] by simp_all
    have empty: "payments_of uid rows = []" if "uid \<notin> set payers" for uid
      using ids that by (auto simp: payments_of_def filter_empty_conv)
    have a: "registered_at u \<le> paid_at p"
      if "p \<in> set rows" "u \<in> set users_df" "user_id u = p_user_id p" for p u
    proof -
      have "p \<in> set (payments_of (user_id u) rows)"
        using that by (simp add: payments_of_def)
      moreover have "payer_ok users_df first_payment_min first_payment_max (user_id u)
                       (payments_of (user_id u) rows)"
        using ok ids that by auto
      ultimately show ?thesis
        using reg_date_of_user [OF assms(2) that(2)] by (auto simp: payer_ok_def)
    qed
    have b: "sorted_wrt (<) (map paid_at (payments_of uid rows))" for uid
    proof (cases "uid \<in> set payers")
      case True
      then show ?thesis
        using ok by (auto simp: payer_ok_def)
    next
      case False
      then show ?thesis
        by (simp add: empty)
    qed
    have c: "\<exists>a. first_payment_min \<le> a \<and> a \<le> first_payment_max
                \<and> amount (hd (payments_of uid rows)) = py_round a 2"
      if "payments_of uid rows \<noteq> []" for uid
    proof -
      have "uid \<in> set payers"
        using that empty by blast
      then show ?thesis
        using ok by (auto simp: payer_ok_def)
    qed
    have d: "first_payment_min \<le> amount (hd (payments_of uid rows))
             \<and> amount (hd (payments_of uid rows)) \<le> first_payment_max"
      if "whole_cents first_payment_min" "whole_cents first_payment_max"
        "payments_of uid rows \<noteq> []" for uid
      using c [OF that(3)] py_round_cents_ge [OF that(1)] py_round_cents_le [OF that(2)]
      by auto
    show ?thesis
      using a b c d by blast
  qed
  show ?thesis
    using total props by blast
qed

section \<open>The replaying generator and the examples\<close>

lemma rng_ok_replay:
  assumes "\<forall>d \<in> set ds. 0 \<le> d \<and> d < 1"
  shows "rng_ok (replay ds)"
proof -
  have d: "0 \<le> (if i < length ds then ds ! i else 0)
           \<and> (if i < length ds then ds ! i else 0) < 1" for i
    using assms by (auto simp: all_set_conv_all_nth)
  have int_draw: "lo \<le> lo + \<lfloor>real_of_int (hi - lo) * x\<rfloor>
                  \<and> lo + \<lfloor>real_of_int (hi - lo) * x\<rfloor> < hi"
    if "lo < hi" "0 \<le> x" "x < 1" for lo hi :: int and x :: real
  proof -
    have pos: "0 < real_of_int (hi - lo)"
      using that(1) by simp
    have "0 \<le> real_of_int (hi - lo) * x"
      using pos that(2) by simp
    then have low: "0 \<le> \<lfloor>real_of_int (hi - lo) * x\<rfloor>"
      by simp
    have "real_of_int (hi - lo) * x < real_of_int (hi - lo) * 1"
      using pos that(3) by (intro mult_strict_left_mono) simp_all
    then have "\<lfloor>real_of_int (hi - lo) * x\<rfloor> < hi - lo"
      by (simp add: floor_less_iff)
    then show ?thesis
      using low by simp
  qed
  show ?thesis
    unfolding rng_ok_def replay_def using d int_draw by simp
qed

lemma rng_ok_demo: "rng_ok (replay demo_draws)" "rng_ok (replay repeat_draws)"
  by (rule rng_ok_replay, simp add: demo_draws_def repeat_draws_def)+

lemma two_users_distinct: "distinct (map user_id two_users)"
  by (simp add: two_users_def)

lemma demo_generated_eq:
  "generate_payments (replay demo_draws) 0 two_users 99 5000 299 499 3 (15 / 100) (3 / 10)
     (Some 42) = Inr demo_generated"
  by code_simp

text \<open>
  The invariants at \<open>two_users\<close> with the defaults of the source (first payment 299 to
  499, churn after 3 months, pay rate 0.15, repeat rate 0.3), amounts 99 to 5000.
\<close>

theorem generate_payments_invariants_witness:
  "rng_ok (replay demo_draws) \<and> distinct (map user_id two_users)
   \<and> generate_payments (replay demo_draws) 0 two_users 99 5000 299 499 3 (15 / 100) (3 / 10)
       (Some 42) = Inr demo_generated
   \<and> sorted_wrt (<) (map paid_at (payments_of 1 demo_generated))
   \<and> sorted_wrt (<) (map paid_at (payments_of 2 demo_generated))
   \<and> 299 \<le> amount (hd (payments_of 1 demo_generated))
   \<and> amount (hd (payments_of 1 demo_generated)) \<le> 499
   \<and> length (payments_of 1 demo_generated) = 3"
proof -
  have cents: "whole_cents 299" "whole_cents 499"
    by (simp_all add: whole_cents_def)
  have ne: "payments_of 1 demo_generated \<noteq> []" and three: "length (payments_of 1 demo_generated) = 3"
    by (simp_all add: payments_of_def demo_generated_def)
  from generate_payments_invariants [OF rng_ok_demo(1) two_users_distinct,
      of 299 499 99 5000 3 0 "15 / 100" "3 / 10" "Some 42"]
  have "sorted_wrt (<) (map paid_at (payments_of 1 demo_generated))
        \<and> sorted_wrt (<) (map paid_at (payments_of 2 demo_generated))
        \<and> 299 \<le> amount (hd (payments_of 1 demo_generated))
        \<and> amount (hd (payments_of 1 demo_generated)) \<le> 499"
    using demo_generated_eq cents ne by simp
  then show ?thesis
    using rng_ok_demo(1) two_users_distinct demo_generated_eq three by simp
qed

text \<open>
  Claim C7 as stated fails for bounds that are not whole cents.  With first-payment
  bounds 299.991 and 299.994 the draw 299.9925 is stored as round(299.9925, 2) = 299.99,
  below \<open>first_payment_min\<close> (as is every other draw of that range).
\<close>

theorem first_payment_below_min_counterexample:
  "generate_payments (replay [1 / 10, 1 / 2, 1 / 2, 1 / 2, 9 / 10]) 0 two_users 99 5000
       (299991 / 1000) (299994 / 1000) 3 (15 / 100) (3 / 10) (Some 42)
     = Inr [\<lparr>p_user_id = 1, payment_id = 1, amount = 29999 / 100,
              paid_at = 2160000000000\<rparr>]
   \<and> (29999 / 100 :: real) < 299991 / 1000
   \<and> (299991 / 1000 :: real) \<le> 299994 / 1000"
proof -
  have "generate_payments (replay [1 / 10, 1 / 2, 1 / 2, 1 / 2, 9 / 10]) 0 two_users 99 5000
       (299991 / 1000) (299994 / 1000) 3 (15 / 100) (3 / 10) (Some 42)
     = Inr [\<lparr>p_user_id = 1, payment_id = 1, amount = 29999 / 100,
              paid_at = 2160000000000\<rparr>]"
    by code_simp
  then show ?thesis by simp
qed

text \<open>
  The cut-off theorem at user 1 of \<open>two_users\<close> with the defaults: the repeat draw 0.2 is
  below 0.3, the integer draw is 3, and the payer emits 4 payments.
\<close>

theorem churn_cutoff_unreachable_witness:
  "rng_ok (replay repeat_draws) \<and> (7::real) \<le> 3 * 30 \<and> (99::real) \<le> 5000 \<and> (299::real) \<le> 499
   \<and> reg_date_of two_users 1 = Some (10 * us_per_day)
   \<and> fst (next_double (replay repeat_draws)
             (snd (next_double (replay repeat_draws)
                (snd (next_double (replay repeat_draws) 0))))) < (3 / 10 :: real)
   \<and> fst (next_integer (replay repeat_draws) 1 6
             (snd (next_double (replay repeat_draws)
                (snd (next_double (replay repeat_draws)
                   (snd (next_double (replay repeat_draws) 0))))))) = 3
   \<and> (\<exists>rows s1. payer_payments (replay repeat_draws) two_users 99 5000 299 499 (3 * 30)
                    (3 / 10) 1 1 0 = Inr (rows, 1 + 1 + 3, s1)
                  \<and> int (length rows) = 1 + 3)"
proof -
  have reg: "reg_date_of two_users 1 = Some (10 * us_per_day)"
    by (simp add: reg_date_of_def two_users_def)
  have u: "fst (next_double (replay repeat_draws)
             (snd (next_double (replay repeat_draws)
                (snd (next_double (replay repeat_draws) 0))))) < (3 / 10 :: real)"
    by (simp add: replay_def repeat_draws_def)
  have k: "fst (next_integer (replay repeat_draws) 1 6
             (snd (next_double (replay repeat_draws)
                (snd (next_double (replay repeat_draws)
                   (snd (next_double (replay repeat_draws) 0))))))) = 3"
    by (simp add: replay_def repeat_draws_def)
  from churn_cutoff_unreachable [OF rng_ok_demo(2) _ _ _ reg, of 3 99 5000 299 499 "3 / 10"]
  have "\<forall>pid s.
          fst (next_double (replay repeat_draws)
                 (snd (next_double (replay repeat_draws)
                    (snd (next_double (replay repeat_draws) s))))) < 3 / 10
          \<longrightarrow> (let k = fst (next_integer (replay repeat_draws) 1 6
                            (snd (next_double (replay repeat_draws)
                               (snd (next_double (replay repeat_draws)
                                  (snd (next_double (replay repeat_draws) s)))))))
               in 1 \<le> k \<and> k \<le> 5
                  \<and> (\<exists>rows s1.
                        payer_payments (replay repeat_draws) two_users 99 5000 299 499 (3 * 30)
                          (3 / 10) 1 pid s = Inr (rows, pid + 1 + k, s1)
                        \<and> int (length rows) = 1 + k))"
    by simp
  from this [rule_format, of 0 1, OF u]
  have "\<exists>rows s1. payer_payments (replay repeat_draws) two_users 99 5000 299 499 (3 * 30)
                    (3 / 10) 1 1 0 = Inr (rows, 1 + 1 + 3, s1)
                  \<and> int (length rows) = 1 + 3"
    unfolding Let_def k by simp
  then show ?thesis
    using rng_ok_demo(2) reg u k by simp
qed


section \<open>Cohort tables: retention and churn by cohort\<close>

text \<open>
  The label of a month period, \<open>str(Period)\<close>: four digits of the year, a hyphen, two
  digits of the month (years 0 to 9999).
\<close>

definition digit_char :: "int \<Rightarrow> char" where
  "digit_char d = ''0123456789'' ! nat (d mod 10)"

definition cohort_label :: "int \<times> int \<Rightarrow> string" where
  "cohort_label ym =
     (let (y, m) = ym
      in [digit_char (y div 1000), digit_char (y div 100), digit_char (y div 10), digit_char y,
          CHR ''-'', digit_char (m div 10), digit_char m])"

text \<open>
  \<open>(paid_month - reg_month).n\<close>, the number of months between two periods, clamped at 0
  by the lambda of the source.
\<close>

definition month_number_of :: "int \<times> int \<Rightarrow> int \<times> int \<Rightarrow> int" where
  "month_number_of paid_month reg_month =
     (let n = (fst paid_month * 12 + snd paid_month) - (fst reg_month * 12 + snd reg_month)
      in if n \<ge> 0 then n else 0)"

text \<open>
  The frame \<open>pay\<close> that both functions build first: the inner join of the payments with
  the users on \<open>user_id\<close> (in the order of the payments), with the cohort of the user and
  the month of life of the payment.  Only the columns the two tables read are kept.
\<close>

record cohort_payment =
  cp_user_id :: int
  cp_cohort :: string
  cp_month_number :: int

definition cohort_frame :: "user list \<Rightarrow> payment list \<Rightarrow> cohort_payment list" where
  "cohort_frame users_df payments_df =
     concat (map (\<lambda>p.
        map (\<lambda>u. \<lparr>cp_user_id = p_user_id p,
                  cp_cohort = cohort_label (to_period_M (registered_at u)),
                  cp_month_number = month_number_of (to_period_M (paid_at p))
                                      (to_period_M (registered_at u))\<rparr>)
            (filter (\<lambda>u. user_id u = p_user_id p) users_df)) payments_df)"

text \<open>\<open>series.unique()\<close>: the distinct values in the order of their first appearance.\<close>

definition unique :: "'a list \<Rightarrow> 'a list" where
  "unique xs = rev (remdups (rev xs))"

text \<open>
  \<open>pay_m0.get(cohort, set())\<close>, the payers of a cohort in month 0, and the payers of a
  cohort in a month of life.
\<close>

definition month0_payers :: "cohort_payment list \<Rightarrow> string \<Rightarrow> int set" where
  "month0_payers pay cohort =
     set (map cp_user_id (filter (\<lambda>r. cp_cohort r = cohort)
                            (filter (\<lambda>r. cp_month_number r = 0) pay)))"

definition month_payers :: "cohort_payment list \<Rightarrow> string \<Rightarrow> int \<Rightarrow> int set" where
  "month_payers pay cohort month_num =
     set (map cp_user_id
            (filter (\<lambda>r. cp_cohort r = cohort \<and> cp_month_number r = month_num) pay))"

text \<open>
  \<open>df.pivot(index="cohort", columns="month_number", values=...)\<close>: the rows are the
  sorted cohorts, the columns the sorted months, a missing cell is \<open>nan\<close> (here \<open>None\<close>);
  it raises ValueError when a (cohort, month) pair occurs twice.  \<open>fillna(0)\<close> replaces
  the missing cells.  An empty \<open>pd.DataFrame()\<close> is the empty list of rows.
\<close>

type_synonym 'v pivot_table = "(string \<times> (int \<times> 'v) list) list"

definition pivot :: "(string \<times> int \<times> real) list \<Rightarrow> error + real option pivot_table" where
  "pivot data =
     (let keys = map (\<lambda>(c, m, v). (c, m)) data
      in if \<not> distinct keys then Inl ValueError
         else Inr (map (\<lambda>c. (c, map (\<lambda>m. (m, map_of (map (\<lambda>(c, m, v). ((c, m), v)) data) (c, m)))
                                   (sort (remdups (map snd keys)))))
                       (sort (remdups (map fst keys)))))"

definition fillna :: "real \<Rightarrow> real option pivot_table \<Rightarrow> real pivot_table" where
  "fillna x t =
     map (\<lambda>(c, row). (c, map (\<lambda>(m, v). (m, case v of None \<Rightarrow> x | Some y \<Rightarrow> y)) row)) t"

definition build_retention_cohorts :: "user list \<Rightarrow> payment list \<Rightarrow> error + real pivot_table" where
  "build_retention_cohorts users_df payments_df =
     (if users_df = [] \<or> payments_df = [] then Inr []
      else
        let pay = cohort_frame users_df payments_df;
            retention_data =
              concat (map (\<lambda>cohort.
                 let payers_m0 = month0_payers pay cohort
                 in if payers_m0 = {} then []
                    else
                      let n_m0 = card payers_m0
                      in map (\<lambda>month_num.
                            let payers_mn = month_payers pay cohort month_num;
                                returned = card (payers_m0 \<inter> payers_mn);
                                pct = (if n_m0 \<noteq> 0 then real returned / real n_m0 * 100 else 0)
                            in (cohort, month_num, pct))
                           (sort (unique (map cp_month_number pay))))
                (unique (map cp_cohort pay)))
        in if retention_data = [] then Inr []
           else case pivot retention_data of
                  Inl e \<Rightarrow> Inl e
                | Inr t \<Rightarrow> Inr (fillna 0 t))"

definition churn_by_cohort_table :: "user list \<Rightarrow> payment list \<Rightarrow> error + real pivot_table" where
  "churn_by_cohort_table users_df payments_df =
     (if users_df = [] \<or> payments_df = [] then Inr []
      else
        let pay = cohort_frame users_df payments_df;
            churn_data =
              concat (map (\<lambda>cohort.
                 let payers_m0 = month0_payers pay cohort
                 in if payers_m0 = {} then []
                    else
                      let n_m0 = card payers_m0
                      in map (\<lambda>month_num.
                            let payers_mn = month_payers pay cohort month_num;
                                retained = card (payers_m0 \<inter> payers_mn);
                                churn_pct = (if n_m0 \<noteq> 0
                                             then 100 - (real retained / real n_m0 * 100)
                                             else 0)
                            in (cohort, month_num, churn_pct))
                           (sort (unique (map cp_month_number pay))))
                (unique (map cp_cohort pay)))
        in if churn_data = [] then Inr []
           else case pivot churn_data of
                  Inl e \<Rightarrow> Inl e
                | Inr t \<Rightarrow> Inr (fillna 0 t))"

text \<open>The cell of a table at a cohort and a month of life, when the table has it.\<close>

definition cell :: "'v pivot_table \<Rightarrow> string \<Rightarrow> int \<Rightarrow> 'v option" where
  "cell t cohort month_num =
     (case map_of t cohort of None \<Rightarrow> None | Some row \<Rightarrow> map_of row month_num)"

text \<open>
  Three users for the examples: two registered in January 2025, one in March.  User 1
  pays in January and March, user 2 in January, user 3 only in April, so the March cohort
  has no payer in its month 0.
\<close>

definition cohort_users :: "user list" where
  "cohort_users =
     [\<lparr>user_id = 1, registered_at = 10 * us_per_day, converted = True,
       variant = ''control'', channel = ''organic''\<rparr>,
      \<lparr>user_id = 2, registered_at = 20 * us_per_day, converted = False,
       variant = ''test'', channel = ''ads''\<rparr>,
      \<lparr>user_id = 3, registered_at = 70 * us_per_day, converted = False,
       variant = ''test'', channel = ''referral''\<rparr>]"

definition cohort_pays :: "payment list" where
  "cohort_pays =
     [\<lparr>p_user_id = 1, payment_id = 1, amount = 300, paid_at = 12 * us_per_day\<rparr>,
      \<lparr>p_user_id = 1, payment_id = 2, amount = 900, paid_at = 65 * us_per_day\<rparr>,
      \<lparr>p_user_id = 2, payment_id = 3, amount = 400, paid_at = 25 * us_per_day\<rparr>,
      \<lparr>p_user_id = 3, payment_id = 4, amount = 350, paid_at = 95 * us_per_day\<rparr>]"

text \<open>
  The shape of the loops of both functions: for every cohort that is not skipped, one
  entry per month.
\<close>

definition loop_rows ::
  "(string \<Rightarrow> bool) \<Rightarrow> (string \<Rightarrow> int \<Rightarrow> real) \<Rightarrow> string list \<Rightarrow> int list
     \<Rightarrow> (string \<times> int \<times> real) list" where
  "loop_rows skip f cohorts months =
     concat (map (\<lambda>c. if skip c then [] else map (\<lambda>m. (c, m, f c m)) months) cohorts)"

definition retention_pct :: "cohort_payment list \<Rightarrow> string \<Rightarrow> int \<Rightarrow> real" where
  "retention_pct pay c m =
     real (card (month0_payers pay c \<inter> month_payers pay c m))
       / real (card (month0_payers pay c)) * 100"

text \<open>The filled table over a list of (cohort, month) keys with the cell values \<open>f\<close>.\<close>

definition table_over :: "(string \<Rightarrow> int \<Rightarrow> real) \<Rightarrow> (string \<times> int) list \<Rightarrow> real pivot_table" where
  "table_over f keys =
     map (\<lambda>c. (c, map (\<lambda>m. (m, if (c, m) \<in> set keys then f c m else 0))
                      (sort (remdups (map snd keys)))))
         (sort (remdups (map fst keys)))"

text \<open>The keys of both tables: the cohorts with a payer in month 0, times the months.\<close>

definition table_keys :: "cohort_payment list \<Rightarrow> (string \<times> int) list" where
  "table_keys pay =
     List.product (filter (\<lambda>c. month0_payers pay c \<noteq> {}) (unique (map cp_cohort pay)))
                  (sort (unique (map cp_month_number pay)))"

section \<open>Facts about the cohort tables\<close>

lemma loop_rows_product:
  "loop_rows skip f cs ms =
     map (\<lambda>(c, m). (c, m, f c m)) (List.product (filter (\<lambda>c. \<not> skip c) cs) ms)"
  by (induction cs) (simp_all add: loop_rows_def comp_def)

lemma unique_set [simp]: "set (unique xs) = set xs"
  by (simp add: unique_def)

lemma unique_distinct [simp]: "distinct (unique xs)"
  by (simp add: unique_def)

lemma month0_payers_finite: "finite (month0_payers pay c)"
  by (simp add: month0_payers_def)

lemma month0_card: "month0_payers pay c \<noteq> {} \<Longrightarrow> card (month0_payers pay c) \<noteq> 0"
  using month0_payers_finite [of pay c] by simp

text \<open>The entries the two loops append, as instances of \<open>loop_rows\<close>.\<close>

lemma retention_data_eq:
  "concat (map (\<lambda>cohort.
      let payers_m0 = month0_payers pay cohort
      in if payers_m0 = {} then []
         else
           let n_m0 = card payers_m0
           in map (\<lambda>month_num.
                 let payers_mn = month_payers pay cohort month_num;
                     returned = card (payers_m0 \<inter> payers_mn);
                     pct = (if n_m0 \<noteq> 0 then real returned / real n_m0 * 100 else 0)
                 in (cohort, month_num, pct)) months) cohorts)
   = loop_rows (\<lambda>c. month0_payers pay c = {}) (retention_pct pay) cohorts months"
  unfolding loop_rows_def Let_def retention_pct_def
  by (intro arg_cong [where f = concat] map_cong refl) (simp add: month0_card)

lemma churn_data_eq:
  "concat (map (\<lambda>cohort.
      let payers_m0 = month0_payers pay cohort
      in if payers_m0 = {} then []
         else
           let n_m0 = card payers_m0
           in map (\<lambda>month_num.
                 let payers_mn = month_payers pay cohort month_num;
                     retained = card (payers_m0 \<inter> payers_mn);
                     churn_pct = (if n_m0 \<noteq> 0
                                  then 100 - (real retained / real n_m0 * 100) else 0)
                 in (cohort, month_num, churn_pct)) months) cohorts)
   = loop_rows (\<lambda>c. month0_payers pay c = {}) (\<lambda>c m. 100 - retention_pct pay c m)
       cohorts months"
  unfolding loop_rows_def Let_def retention_pct_def
  by (intro arg_cong [where f = concat] map_cong refl) (simp add: month0_card)

lemma pivot_fillna_keys:
  assumes "distinct keys"
  shows "(case pivot (map (\<lambda>(c, m). (c, m, f c m)) keys) of
            Inl e \<Rightarrow> Inl e
          | Inr t \<Rightarrow> Inr (fillna 0 t)) = Inr (table_over f keys)"
proof -
  have k: "map (\<lambda>(c, m, v). (c, m)) (map (\<lambda>(c, m). (c, m, f c m)) keys) = keys"
    by (simp add: comp_def case_prod_beta)
  have e: "map (\<lambda>(c, m, v). ((c, m), v)) (map (\<lambda>(c, m). (c, m, f c m)) keys)
          = map (\<lambda>k. (k, f (fst k) (snd k))) keys"
    by (simp add: comp_def case_prod_beta)
  have m: "map_of (map (\<lambda>(c, m, v). ((c, m), v)) (map (\<lambda>(c, m). (c, m, f c m)) keys)) (c, m)
                  = (if (c, m) \<in> set keys then Some (f c m) else None)" for c m
    unfolding e map_of_map_restrict by (simp add: restrict_map_def)
  show ?thesis
    unfolding pivot_def Let_def k m using assms
    by (simp add: fillna_def table_over_def comp_def)
qed

lemma table_keys_distinct: "distinct (table_keys pay)"
  unfolding table_keys_def by (intro distinct_product) simp_all

lemma table_over_Nil: "table_over f [] = []"
  by (simp add: table_over_def)

lemma cohort_frame_empty:
  "users_df = [] \<or> payments_df = [] \<Longrightarrow> cohort_frame users_df payments_df = []"
  by (auto simp: cohort_frame_def)

lemma table_keys_Nil: "table_keys [] = []"
  by (simp add: table_keys_def unique_def)

lemma build_retention_cohorts_eq:
  "build_retention_cohorts users_df payments_df
     = Inr (table_over (retention_pct (cohort_frame users_df payments_df))
              (table_keys (cohort_frame users_df payments_df)))"
proof (cases "users_df = [] \<or> payments_df = []")
  case True
  then show ?thesis
    by (simp add: build_retention_cohorts_def cohort_frame_empty table_keys_Nil table_over_Nil)
next
  case False
  define pay where "pay = cohort_frame users_df payments_df"
  have "build_retention_cohorts users_df payments_df
          = (if map (\<lambda>(c, m). (c, m, retention_pct pay c m)) (table_keys pay) = [] then Inr []
             else case pivot (map (\<lambda>(c, m). (c, m, retention_pct pay c m)) (table_keys pay)) of
                    Inl e \<Rightarrow> Inl e
                  | Inr t \<Rightarrow> Inr (fillna 0 t))"
    using False unfolding build_retention_cohorts_def Let_def retention_data_eq [unfolded Let_def]
    by (simp add: loop_rows_product table_keys_def pay_def)
  also have "\<dots> = Inr (table_over (retention_pct pay) (table_keys pay))"
    using pivot_fillna_keys [OF table_keys_distinct, of "retention_pct pay" pay]
    by (auto simp: table_over_Nil)
  finally show ?thesis
    by (simp add: pay_def)
qed

lemma churn_by_cohort_table_eq:
  "churn_by_cohort_table users_df payments_df
     = Inr (table_over (\<lambda>c m. 100 - retention_pct (cohort_frame users_df payments_df) c m)
              (table_keys (cohort_frame users_df payments_df)))"
proof (cases "users_df = [] \<or> payments_df = []")
  case True
  then show ?thesis
    by (simp add: churn_by_cohort_table_def cohort_frame_empty table_keys_Nil table_over_Nil)
next
  case False
  define pay where "pay = cohort_frame users_df payments_df"
  have "churn_by_cohort_table users_df payments_df
          = (if map (\<lambda>(c, m). (c, m, 100 - retention_pct pay c m)) (table_keys pay) = []
             then Inr []
             else case pivot (map (\<lambda>(c, m). (c, m, 100 - retention_pct pay c m))
                                (table_keys pay)) of
                    Inl e \<Rightarrow> Inl e
                  | Inr t \<Rightarrow> Inr (fillna 0 t))"
    using False unfolding churn_by_cohort_table_def Let_def churn_data_eq [unfolded Let_def]
    by (simp add: loop_rows_product table_keys_def pay_def)
  also have "\<dots> = Inr (table_over (\<lambda>c m. 100 - retention_pct pay c m) (table_keys pay))"
    using pivot_fillna_keys [OF table_keys_distinct,
        of "\<lambda>c m. 100 - retention_pct pay c m" pay]
    by (auto simp: table_over_Nil)
  finally show ?thesis
    by (simp add: pay_def)
qed

lemma table_over_index: "map fst (table_over f keys) = sort (remdups (map fst keys))"
  by (simp add: table_over_def comp_def)

lemma cell_table_over:
  "cell (table_over f keys) c m =
     (if c \<in> fst ` set keys \<and> m \<in> snd ` set keys
      then Some (if (c, m) \<in> set keys then f c m else 0) else None)"
proof -
  have row: "map_of (table_over f keys) c =
               (if c \<in> fst ` set keys
                then Some (map (\<lambda>m. (m, if (c, m) \<in> set keys then f c m else 0))
                             (sort (remdups (map snd keys))))
                else None)"
    unfolding table_over_def map_of_map_restrict by (simp add: restrict_map_def)
  have col: "map_of (map (\<lambda>m. (m, if (c, m) \<in> set keys then f c m else 0))
                       (sort (remdups (map snd keys)))) m =
               (if m \<in> snd ` set keys then Some (if (c, m) \<in> set keys then f c m else 0)
                else None)"
    unfolding map_of_map_restrict by (simp add: restrict_map_def)
  show ?thesis
    by (simp add: cell_def row col)
qed

lemma table_keys_set:
  "set (table_keys pay) =
     {c \<in> cp_cohort ` set pay. month0_payers pay c \<noteq> {}} \<times> cp_month_number ` set pay"
  by (auto simp: table_keys_def)

lemma table_keys_cohorts:
  "fst ` set (table_keys pay) = {c \<in> cp_cohort ` set pay. month0_payers pay c \<noteq> {}}"
proof -
  have "cp_month_number ` set pay \<noteq> {}" if "c \<in> cp_cohort ` set pay" for c
    using that by auto
  then show ?thesis
    unfolding table_keys_set by (auto simp: fst_image_times)
qed

lemma cell_keys_product:
  assumes "c \<in> fst ` set (table_keys pay)" and "m \<in> snd ` set (table_keys pay)"
  shows "(c, m) \<in> set (table_keys pay)"
  using assms unfolding table_keys_set by (auto split: if_splits)

text \<open>
  Claim C4.  Over the same users and payments both functions return a table; the two
  tables have the same cohort rows and the same cells; in every cell retention plus churn
  is 100; and the cohorts of the tables are exactly the cohorts of the joined payments
  that have a payer in month 0.
\<close>

theorem retention_churn_complementary:
  "\<exists>R C. build_retention_cohorts users_df payments_df = Inr R
         \<and> churn_by_cohort_table users_df payments_df = Inr C
         \<and> map fst R = map fst C
         \<and> (\<forall>c m. (cell R c m = None) = (cell C c m = None))
         \<and> (\<forall>c m r ch. cell R c m = Some r \<and> cell C c m = Some ch \<longrightarrow> r + ch = 100)
         \<and> set (map fst R)
             = {c \<in> cp_cohort ` set (cohort_frame users_df payments_df).
                  month0_payers (cohort_frame users_df payments_df) c \<noteq> {}}"
proof -
  define pay where "pay = cohort_frame users_df payments_df"
  define R where "R = table_over (retention_pct pay) (table_keys pay)"
  define C where "C = table_over (\<lambda>c m. 100 - retention_pct pay c m) (table_keys pay)"
  have r: "build_retention_cohorts users_df payments_df = Inr R"
    by (simp add: build_retention_cohorts_eq R_def pay_def)
  have c: "churn_by_cohort_table users_df payments_df = Inr C"
    by (simp add: churn_by_cohort_table_eq C_def pay_def)
  have idx: "map fst R = map fst C"
    by (simp add: R_def C_def table_over_index)
  have same: "(cell R c m = None) = (cell C c m = None)" for c m
    by (simp add: R_def C_def cell_table_over)
  have sum: "r' + ch = 100" if "cell R c m = Some r'" "cell C c m = Some ch" for c m r' ch
  proof -
    have in_keys: "c \<in> fst ` set (table_keys pay)" "m \<in> snd ` set (table_keys pay)"
      using that(1) by (auto simp: R_def cell_table_over split: if_splits)
    then have "(c, m) \<in> set (table_keys pay)"
      by (rule cell_keys_product)
    then have "r' = retention_pct pay c m" "ch = 100 - retention_pct pay c m"
      using that in_keys by (auto simp: R_def C_def cell_table_over split: if_splits)
    then show ?thesis by simp
  qed
  have cohorts: "set (map fst R)
                   = {c \<in> cp_cohort ` set pay. month0_payers pay c \<noteq> {}}"
    using table_keys_cohorts [of pay] by (simp add: R_def table_over_index del: set_map) auto
  show ?thesis
    using r c idx same sum cohorts unfolding pay_def by blast
qed

text \<open>
  At the example tables: the January cohort keeps half of its month-0 payers in month 2,
  and the March cohort, whose only payer pays in its month 1, is in neither table.
\<close>

theorem retention_churn_complementary_witness:
  "build_retention_cohorts cohort_users cohort_pays
     = Inr [(''2025-01'', [(0, 100), (1, 0), (2, 50)])]
   \<and> churn_by_cohort_table cohort_users cohort_pays
     = Inr [(''2025-01'', [(0, 0), (1, 100), (2, 50)])]
   \<and> cell [(''2025-01'', [(0, 100), (1, 0), (2, 50 :: real)])] ''2025-01'' 2 = Some 50
   \<and> cell [(''2025-01'', [(0, 0), (1, 100), (2, 50 :: real)])] ''2025-01'' 2 = Some 50
   \<and> (50 :: real) + 50 = 100
   \<and> ''2025-03'' \<in> cp_cohort ` set (cohort_frame cohort_users cohort_pays)
   \<and> month0_payers (cohort_frame cohort_users cohort_pays) ''2025-03'' = {}"
proof -
  have r: "build_retention_cohorts cohort_users cohort_pays
             = Inr [(''2025-01'', [(0, 100), (1, 0), (2, 50)])]"
    by code_simp
  have c: "churn_by_cohort_table cohort_users cohort_pays
             = Inr [(''2025-01'', [(0, 0), (1, 100), (2, 50)])]"
    by code_simp
  have cells: "cell [(''2025-01'', [(0, 100), (1, 0), (2, 50 :: real)])] ''2025-01'' 2 = Some 50"
    "cell [(''2025-01'', [(0, 0), (1, 100), (2, 50 :: real)])] ''2025-01'' 2 = Some 50"
    by (simp_all add: cell_def)
  have frame: "cohort_frame cohort_users cohort_pays
     = [\<lparr>cp_user_id = 1, cp_cohort = ''2025-01'', cp_month_number = 0\<rparr>,
        \<lparr>cp_user_id = 1, cp_cohort = ''2025-01'', cp_month_number = 2\<rparr>,
        \<lparr>cp_user_id = 2, cp_cohort = ''2025-01'', cp_month_number = 0\<rparr>,
        \<lparr>cp_user_id = 3, cp_cohort = ''2025-03'', cp_month_number = 1\<rparr>]"
    by code_simp
  have march: "''2025-03'' \<in> cp_cohort ` set (cohort_frame cohort_users cohort_pays)"
    "month0_payers (cohort_frame cohort_users cohort_pays) ''2025-03'' = {}"
    by (simp_all add: frame month0_payers_def)
  from retention_churn_complementary [of cohort_users cohort_pays]
  have "(50 :: real) + 50 = 100"
    using r c cells by auto
  then show ?thesis
    using r c cells march by simp
qed

end
